theory Spec2Isabelle
  imports Complex_Main
begin

section \<open>Strings and numbers of the host language\<close>

text \<open>
  The program is TypeScript running in a browser. A string is a sequence of code units;
  it is modelled by \<^typ>\<open>string\<close>, so the texts covered are those whose code units are
  below 256, and \<open>length\<close> is the \<open>.length\<close> of the source. Numbers that the program
  only counts with (array lengths, indices, sums of lengths) are \<^typ>\<open>nat\<close>; readings
  of the clock are \<^typ>\<open>int\<close>.
\<close>

subsection \<open>Number to string conversion inside template literals\<close>

text \<open>
  The decimal digits of an integer, with a minus sign when it is negative: what
  \<open>`${n}`\<close> gives for the integers the program formats (clock readings and array
  indices, all far below the \<open>10\<^sup>2\<^sup>1\<close> where the exponent notation starts).
\<close>

definition digit_char :: "nat \<Rightarrow> char" where
  "digit_char d = ''0123456789'' ! d"

fun digits :: "nat \<Rightarrow> string" where
  "digits n = (if n < 10 then [digit_char n] else digits (n div 10) @ [digit_char (n mod 10)])"

declare digits.simps [simp del]

definition Number_toString :: "int \<Rightarrow> string" where
  "Number_toString i = (if i < 0 then CHR ''-'' # digits (nat (- i)) else digits (nat i))"

section \<open>Regular expressions as the matcher sees them\<close>

text \<open>
  \<open>new RegExp(keyword, 'gi')\<close> either throws a \<open>SyntaxError\<close> or yields a regular
  expression object. Of that object the program uses two things only: the anchored match
  of the pattern at one index of a text (\<open>m S i = Some n\<close>: the pattern matches the \<open>n\<close>
  code units of \<open>S\<close> that start at index \<open>i\<close>; \<open>None\<close>: no match starts there), and the
  \<open>lastIndex\<close> cursor, which the scans below pass along explicitly.
\<close>

type_synonym matcher = "string \<Rightarrow> nat \<Rightarrow> nat option"

type_synonym RegExp_constructor = "string \<Rightarrow> string + matcher"

text \<open>
  \<open>RegExpBuiltinExec\<close> for a global expression: starting at \<open>lastIndex\<close>, try every
  index up to the length of the text; the first index with a match gives the result
  (its index and the number of code units matched), and no index gives \<open>null\<close>.
\<close>

function RegExpBuiltinExec :: "matcher \<Rightarrow> string \<Rightarrow> nat \<Rightarrow> (nat \<times> nat) option" where
  "RegExpBuiltinExec m S lastIndex =
     (if lastIndex > length S then None
      else (case m S lastIndex of
              None \<Rightarrow> RegExpBuiltinExec m S (lastIndex + 1)
            | Some n \<Rightarrow> Some (lastIndex, n)))"
  by pat_completeness auto
termination
  by (relation "measure (\<lambda>(m, S, lastIndex). length S + 1 - lastIndex)") auto

declare RegExpBuiltinExec.simps [simp del]

text \<open>
  \<open>text.match(regex)\<close> with the global flag: \<open>lastIndex\<close> starts at 0, every result of
  \<open>RegExpBuiltinExec\<close> is collected, the cursor moves to the end of the match, and one
  code unit further when the matched string is empty.
\<close>

function match_loop :: "matcher \<Rightarrow> string \<Rightarrow> nat \<Rightarrow> (nat \<times> nat) list" where
  "match_loop m S lastIndex =
     (case RegExpBuiltinExec m S lastIndex of
        None \<Rightarrow> []
      | Some (index, n) \<Rightarrow>
          (index, n) # match_loop m S
             (if take n (drop index S) = [] then index + n + 1 else index + n))"
  by pat_completeness auto
termination
proof (relation "measure (\<lambda>(m, S, lastIndex). length S + 1 - lastIndex)", goal_cases)
  case 1
  then show ?case by simp
next
  case (2 m S lastIndex x2 index n)
  have bounds: "RegExpBuiltinExec m S i = Some (j, k) \<Longrightarrow> i \<le> j \<and> j \<le> length S" for i j k
  proof (induction m S i rule: RegExpBuiltinExec.induct)
    case (1 m S i)
    then show ?case
      by (subst (asm) (2) RegExpBuiltinExec.simps) (auto split: if_splits option.splits)
  qed
  from 2 have "RegExpBuiltinExec m S lastIndex = Some (index, n)" by simp
  then have "lastIndex \<le> index \<and> index \<le> length S" by (rule bounds)
  then show ?case by (auto split: if_splits)
qed

declare match_loop.simps [simp del]

definition String_match :: "matcher \<Rightarrow> string \<Rightarrow> string list" where
  "String_match regex text = map (\<lambda>(index, n). take n (drop index text)) (match_loop regex text 0)"

text \<open>
  The loop \<open>while ((match = searchRegex.exec(text)) !== null) positions.push(match.index)\<close>.
  After each result the cursor is the end of the match and nothing else moves it, so after
  an empty match the same result comes again. Every turn pushes onto \<open>positions\<close>, and an
  array holds at most \<open>limit\<close> elements (the bound of the engine, at most \<open>2\<^sup>3\<^sup>2 - 1\<close>): the
  push onto a full array throws \<open>RangeError\<close>, which is how a scan that does not advance
  ends. The loop result is \<open>Inl\<close> of the message, or \<open>Inr\<close> of the positions.
\<close>

definition range_error :: string where
  "range_error = ''Invalid array length''"

function exec_loop :: "matcher \<Rightarrow> nat \<Rightarrow> string \<Rightarrow> nat \<Rightarrow> nat list \<Rightarrow> string + nat list" where
  "exec_loop searchRegex limit text lastIndex positions =
     (case RegExpBuiltinExec searchRegex text lastIndex of
        None \<Rightarrow> Inr positions
      | Some (index, n) \<Rightarrow>
          if length positions < limit
          then exec_loop searchRegex limit text (index + n) (positions @ [index])
          else Inl range_error)"
  by pat_completeness auto
termination
  by (relation "measure (\<lambda>(searchRegex, limit, text, lastIndex, positions). limit - length positions)") auto

declare exec_loop.simps [simp del]

section \<open>The keyword matcher\<close>

record KeywordMatch =
  keyword :: string
  count :: nat
  positions :: "nat list"

text \<open>
  The callback of \<open>keywords.map\<close>: two expressions are built from the same keyword, the
  first counts with \<open>match\<close>, the second collects the indices. The result is \<open>Inl\<close> of
  the message when the constructor or the loop throws. (The array of \<open>match\<close> is as long
  as \<open>positions\<close> would be, so it outgrows no bound that the loop respects.)
\<close>

definition keyword_callback :: "RegExp_constructor \<Rightarrow> nat \<Rightarrow> string \<Rightarrow> string \<Rightarrow> string + KeywordMatch" where
  "keyword_callback RegExp limit text kw =
     (case RegExp kw of
        Inl e \<Rightarrow> Inl e
      | Inr regex \<Rightarrow>
          (let matches = String_match regex text in
           case RegExp kw of
             Inl e \<Rightarrow> Inl e
           | Inr searchRegex \<Rightarrow>
               (case exec_loop searchRegex limit text 0 [] of
                  Inl e \<Rightarrow> Inl e
                | Inr ps \<Rightarrow> Inr \<lparr>keyword = kw, count = length matches, positions = ps\<rparr>)))"

fun map_keywords :: "RegExp_constructor \<Rightarrow> nat \<Rightarrow> string \<Rightarrow> string list \<Rightarrow> string + KeywordMatch list" where
  "map_keywords RegExp limit text [] = Inr []"
| "map_keywords RegExp limit text (kw # kws) =
     (case keyword_callback RegExp limit text kw of
        Inl e \<Rightarrow> Inl e
      | Inr km \<Rightarrow>
          (case map_keywords RegExp limit text kws of
             Inl e \<Rightarrow> Inl e
           | Inr kms \<Rightarrow> Inr (km # kms)))"

definition findKeywordMatches :: "RegExp_constructor \<Rightarrow> nat \<Rightarrow> string \<Rightarrow> string list \<Rightarrow> string + KeywordMatch list" where
  "findKeywordMatches RegExp limit text keywords =
     (case map_keywords RegExp limit text keywords of
        Inl e \<Rightarrow> Inl e
      | Inr kms \<Rightarrow> Inr (filter (\<lambda>match. count match > 0) kms))"

section \<open>A regular-expression constructor for a fragment of the pattern syntax\<close>

text \<open>
  The constructor is a parameter of the matcher above. This one gives it a value on
  patterns made of literal characters and \<open>.\<close>, each with an optional greedy quantifier
  \<open>*\<close>, \<open>+\<close> or \<open>?\<close>, under the flags \<open>gi\<close>. A quantifier with nothing before it is the
  \<open>SyntaxError\<close> of the host; a pattern that uses any other syntax character
  (the backslash, \<open>^ $ | ( ) [ ] { }\<close>, or a lazy quantifier) is outside the fragment and is
  answered with the message \<open>unmodelled\<close>.
\<close>

datatype atom = Lit char | AnyChar

datatype quantifier = Once | Star | Plus | Opt

type_synonym pattern = "(atom \<times> quantifier) list"

definition is_quantifier :: "char \<Rightarrow> bool" where
  "is_quantifier c = (c = CHR ''*'' \<or> c = CHR ''+'' \<or> c = CHR ''?'')"

definition quantifier_of :: "char \<Rightarrow> quantifier" where
  "quantifier_of c = (if c = CHR ''*'' then Star else if c = CHR ''+'' then Plus else Opt)"

definition syntax_char :: "char \<Rightarrow> bool" where
  "syntax_char c = (c = CHR 0x5C \<or> c \<in> set ''^$.*+?()[]{}|'')"

definition atom_of :: "char \<Rightarrow> atom option" where
  "atom_of c = (if c = CHR ''.'' then Some AnyChar else if syntax_char c then None else Some (Lit c))"

text \<open>The wording of the message of the \<open>SyntaxError\<close> depends on the engine.\<close>

definition nothing_to_repeat :: string where
  "nothing_to_repeat = ''Invalid regular expression: Nothing to repeat''"

definition unmodelled :: string where
  "unmodelled = ''unmodelled''"

fun parse_pattern :: "string \<Rightarrow> string + pattern" where
  "parse_pattern [] = Inr []"
| "parse_pattern (c # cs) =
     (if is_quantifier c then Inl nothing_to_repeat
      else (case atom_of c of
              None \<Rightarrow> Inl unmodelled
            | Some a \<Rightarrow>
                (case cs of
                   [] \<Rightarrow> Inr [(a, Once)]
                 | q # rest \<Rightarrow>
                     if is_quantifier q then
                       (case rest of
                          [] \<Rightarrow> Inr [(a, quantifier_of q)]
                        | r # rest' \<Rightarrow>
                            if r = CHR ''?'' then Inl unmodelled
                            else (case parse_pattern rest of
                                    Inl e \<Rightarrow> Inl e
                                  | Inr p \<Rightarrow> Inr ((a, quantifier_of q) # p)))
                     else (case parse_pattern cs of
                             Inl e \<Rightarrow> Inl e
                           | Inr p \<Rightarrow> Inr ((a, Once) # p)))))"

text \<open>
  \<open>Canonicalize\<close> under the flag \<open>i\<close> without \<open>u\<close>: the upper-case form of the code unit
  when that is a single code unit. Below 256 this moves \<open>a\<close>..\<open>z\<close> and the accented
  letters 224..254 (247 apart) down by 32. The two code units whose upper-case form lies
  above 255 (181 and 255) are left alone here, like every other code unit; no other code
  unit below 256 shares their canonical form, so no comparison changes.
\<close>

definition Canonicalize :: "char \<Rightarrow> char" where
  "Canonicalize ch =
     (let n = (of_char ch :: nat) in
      if (97 \<le> n \<and> n \<le> 122) \<or> (224 \<le> n \<and> n \<le> 254 \<and> n \<noteq> 247) then char_of (n - 32) else ch)"

definition LineTerminator :: "char \<Rightarrow> bool" where
  "LineTerminator ch = (ch = CHR 0x0A \<or> ch = CHR 0x0D)"

fun atom_ok :: "atom \<Rightarrow> char \<Rightarrow> bool" where
  "atom_ok (Lit c) ch = (Canonicalize ch = Canonicalize c)"
| "atom_ok AnyChar ch = (\<not> LineTerminator ch)"

text \<open>
  The matchers take the rest of the input and a continuation, as the pattern semantics of
  the language standard does, and return the number of code units consumed. A greedy
  quantifier tries one more repetition first and falls back to the continuation.
\<close>

fun match_one :: "(char \<Rightarrow> bool) \<Rightarrow> (string \<Rightarrow> nat option) \<Rightarrow> string \<Rightarrow> nat option" where
  "match_one p k [] = None"
| "match_one p k (ch # rest) = (if p ch then map_option Suc (k rest) else None)"

fun match_star :: "(char \<Rightarrow> bool) \<Rightarrow> (string \<Rightarrow> nat option) \<Rightarrow> string \<Rightarrow> nat option" where
  "match_star p k [] = k []"
| "match_star p k (ch # rest) =
     (if p ch then (case match_star p k rest of Some n \<Rightarrow> Some (Suc n) | None \<Rightarrow> k (ch # rest))
      else k (ch # rest))"

definition match_opt :: "(char \<Rightarrow> bool) \<Rightarrow> (string \<Rightarrow> nat option) \<Rightarrow> string \<Rightarrow> nat option" where
  "match_opt p k s = (case match_one p k s of Some n \<Rightarrow> Some n | None \<Rightarrow> k s)"

fun match_pattern :: "pattern \<Rightarrow> string \<Rightarrow> nat option" where
  "match_pattern [] s = Some 0"
| "match_pattern ((a, Once) # p) s = match_one (atom_ok a) (match_pattern p) s"
| "match_pattern ((a, Star) # p) s = match_star (atom_ok a) (match_pattern p) s"
| "match_pattern ((a, Plus) # p) s = match_one (atom_ok a) (match_star (atom_ok a) (match_pattern p)) s"
| "match_pattern ((a, Opt) # p) s = match_opt (atom_ok a) (match_pattern p) s"

definition compile :: "pattern \<Rightarrow> matcher" where
  "compile p S i = match_pattern p (drop i S)"

definition RegExp_gi :: RegExp_constructor where
  "RegExp_gi kw = (case parse_pattern kw of Inl e \<Rightarrow> Inl e | Inr p \<Rightarrow> Inr (compile p))"

section \<open>The data model\<close>

text \<open>
  The interfaces of \<open>types/index.ts\<close>, as \<open>recreate-req-doc.md\<close> lists them. Field
  names carry a prefix wherever the same name occurs in two interfaces or is used as a
  variable by the functions below; an optional field is an \<open>option\<close>.
\<close>

datatype analysis_status = Pending | Processing | Completed | Error

record PromptAnalysis =
  a_id :: string
  a_prompt :: string
  a_response :: string
  a_keywordMatches :: "KeywordMatch list"
  a_timestamp :: int
  a_status :: analysis_status
  a_error :: "string option"

datatype session_status = Idle | Running | Finished | Failed

record AnalysisSession =
  s_id :: string
  s_prompts :: "string list"
  s_keywords :: "string list"
  s_results :: "PromptAnalysis list"
  s_startTime :: int
  s_endTime :: "int option"
  s_status :: session_status

record AnalyticsData =
  totalPrompts :: nat
  totalResponses :: nat
  totalKeywordMatches :: nat
  averageResponseLength :: nat
  keywordFrequency :: "(string \<times> nat) list"
  processingTime :: int

record BatchRow =
  r_prompt :: string
  r_keywords :: "string list"

record BatchAnalysisSession =
  b_id :: string
  b_name :: string
  b_rows :: "BatchRow list"
  b_results :: "PromptAnalysis list"
  b_startTime :: int
  b_endTime :: "int option"
  b_status :: session_status
  b_totalRows :: nat
  b_processedRows :: nat

section \<open>The analytics of \<open>App\<close>\<close>

text \<open>
  \<open>Math.round(s / n)\<close> for a sum of lengths \<open>s\<close> and a positive count \<open>n\<close>: the
  quotient rounded to the nearest integer, a half going up. The quotient is taken
  exactly; the floating-point division of the source gives the same result for every sum
  below \<open>2\<^sup>5\<^sup>2\<close>.
\<close>

definition Math_round_quotient :: "nat \<Rightarrow> nat \<Rightarrow> nat" where
  "Math_round_quotient s n = (2 * s + n) div (2 * n)"

text \<open>
  \<open>freq[k] = (freq[k] || 0) + c\<close> on an object that keeps its keys in insertion order
  (keys that the empty object inherits are not modelled).
\<close>

definition freq_add :: "string \<Rightarrow> nat \<Rightarrow> (string \<times> nat) list \<Rightarrow> (string \<times> nat) list" where
  "freq_add k c freq =
     (case map_of freq k of
        None \<Rightarrow> freq @ [(k, c)]
      | Some v \<Rightarrow> map (\<lambda>(k', v'). if k' = k then (k', v + c) else (k', v')) freq)"

text \<open>
  The object \<open>analytics\<close> is computed at every render from the state \<open>analyses\<close> and
  \<open>currentSession\<close>; \<open>now\<close> is what \<open>Date.now()\<close> returns at that render. An
  \<open>endTime\<close> of 0 is falsy, so \<open>endTime || Date.now()\<close> reads the clock then too.
\<close>

definition analytics :: "int \<Rightarrow> PromptAnalysis list \<Rightarrow> AnalysisSession option \<Rightarrow> AnalyticsData" where
  "analytics now analyses currentSession =
     \<lparr>totalPrompts = length analyses,
      totalResponses = length (filter (\<lambda>a. a_status a = Completed) analyses),
      totalKeywordMatches =
        fold (\<lambda>a sum. sum + fold (\<lambda>match matchSum. matchSum + count match) (a_keywordMatches a) 0)
          analyses 0,
      averageResponseLength =
        (if length analyses > 0
         then Math_round_quotient (fold (\<lambda>a sum. sum + length (a_response a)) analyses 0) (length analyses)
         else 0),
      keywordFrequency =
        fold (\<lambda>analysis freq.
               fold (\<lambda>match freq'. freq_add (keyword match) (count match) freq') (a_keywordMatches analysis) freq)
          analyses [],
      processingTime =
        (case currentSession of
           None \<Rightarrow> 0
         | Some session \<Rightarrow>
             (case s_endTime session of
                None \<Rightarrow> now
              | Some endTime \<Rightarrow> if endTime \<noteq> 0 then endTime else now) - s_startTime session)\<rparr>"

section \<open>The environment of a run\<close>

text \<open>
  What the text-generation call \<open>blink.ai.generateText\<close> can do: resolve with a text,
  reject with an \<open>Error\<close> that has a message, or reject with some other value.
\<close>

datatype outcome = Resolved string | Rejected_Error string | Rejected_other

text \<open>
  The collaborators of the program: the regular-expression constructor and the bound on
  the length of an array (both of the engine), the clock (its \<open>k\<close>-th reading), the
  provider (its answer to the \<open>k\<close>-th call, for a prompt) and the locale-dependent
  formatting of a date.
\<close>

record env =
  env_RegExp :: RegExp_constructor
  env_array_limit :: nat
  env_clock :: "nat \<Rightarrow> int"
  env_generateText :: "nat \<Rightarrow> string \<Rightarrow> outcome"
  env_toLocaleString :: "int \<Rightarrow> string"

text \<open>
  What a run changes outside the component state: how many times the clock has been
  read, and the prompts sent to the provider so far.
\<close>

record world =
  ticks :: nat
  calls :: "string list"

definition Date_now :: "env \<Rightarrow> 'a world_scheme \<Rightarrow> int \<times> 'a world_scheme" where
  "Date_now e w = (env_clock e (ticks w), w\<lparr>ticks := ticks w + 1\<rparr>)"

definition generateText :: "env \<Rightarrow> string \<Rightarrow> 'a world_scheme \<Rightarrow> outcome \<times> 'a world_scheme" where
  "generateText e prompt w = (env_generateText e (length (calls w)) prompt, w\<lparr>calls := calls w @ [prompt]\<rparr>)"

section \<open>The scheduler of \<open>App\<close>\<close>

text \<open>
  The state of the component, with \<open>history\<close> recording every value that
  \<open>setAnalyses\<close> gave to \<open>analyses\<close>, oldest first.
\<close>

record app_state = world +
  analyses :: "PromptAnalysis list"
  currentSession :: "AnalysisSession option"
  isRunning :: bool
  history :: "PromptAnalysis list list"

definition setAnalyses :: "(PromptAnalysis list \<Rightarrow> PromptAnalysis list) \<Rightarrow> app_state \<Rightarrow> app_state" where
  "setAnalyses f st = st\<lparr>analyses := f (analyses st), history := history st @ [f (analyses st)]\<rparr>"

definition unknown_error :: string where
  "unknown_error = ''Unknown error occurred''"

definition errorAnalysis :: "env \<Rightarrow> string \<Rightarrow> string \<Rightarrow> string \<Rightarrow> app_state \<Rightarrow> PromptAnalysis \<times> app_state" where
  "errorAnalysis e analysisId prompt msg st =
     (let (t, st') = Date_now e st
      in (\<lparr>a_id = analysisId, a_prompt = prompt, a_response = [], a_keywordMatches = [],
           a_timestamp = t, a_status = Error, a_error = Some msg\<rparr>, st'))"

text \<open>
  \<open>processPrompt\<close>: everything after the first line is inside \<open>try\<close>, and the
  \<open>catch\<close> turns what is thrown (by the provider, by the constructor of an expression or
  by the push onto a full array) into the item in error.
\<close>

definition processPrompt ::
  "env \<Rightarrow> string list \<Rightarrow> string \<Rightarrow> nat \<Rightarrow> string \<Rightarrow> app_state \<Rightarrow> PromptAnalysis \<times> app_state" where
  "processPrompt e keywords prompt index analysisId st =
     (let st1 = setAnalyses (map (\<lambda>a. if a_id a = analysisId then a\<lparr>a_status := Processing\<rparr> else a)) st;
          (r, st2) = generateText e prompt st1
      in case r of
           Resolved text \<Rightarrow>
             (case findKeywordMatches (env_RegExp e) (env_array_limit e) text keywords of
                Inl msg \<Rightarrow> errorAnalysis e analysisId prompt msg st2
              | Inr keywordMatches \<Rightarrow>
                  (let (t, st3) = Date_now e st2
                   in (\<lparr>a_id = analysisId, a_prompt = prompt, a_response = text,
                         a_keywordMatches = keywordMatches, a_timestamp = t,
                         a_status = Completed, a_error = None\<rparr>, st3)))
         | Rejected_Error msg \<Rightarrow> errorAnalysis e analysisId prompt msg st2
         | Rejected_other \<Rightarrow> errorAnalysis e analysisId prompt unknown_error st2)"

text \<open>
  \<open>prompts.map((prompt, index) => ...)\<close> building the placeholders: two readings of the
  clock for each, one inside the id and one for the timestamp.
\<close>

fun initialAnalyses :: "env \<Rightarrow> string list \<Rightarrow> nat \<Rightarrow> app_state \<Rightarrow> PromptAnalysis list \<times> app_state" where
  "initialAnalyses e [] index st = ([], st)"
| "initialAnalyses e (prompt # rest) index st =
     (let (t1, st1) = Date_now e st;
          (t2, st2) = Date_now e st1;
          a = \<lparr>a_id = ''analysis-'' @ Number_toString t1 @ ''-'' @ Number_toString (int index),
               a_prompt = prompt, a_response = [], a_keywordMatches = [],
               a_timestamp = t2, a_status = Pending, a_error = None\<rparr>;
          (as, st3) = initialAnalyses e rest (index + 1) st2
      in (a # as, st3))"

text \<open>The loop \<open>for (let i = 0; i < prompts.length; i++)\<close> of \<open>startAnalysis\<close>.\<close>

function process_loop ::
  "env \<Rightarrow> string list \<Rightarrow> string list \<Rightarrow> PromptAnalysis list \<Rightarrow> nat \<Rightarrow> PromptAnalysis list \<Rightarrow> app_state
   \<Rightarrow> PromptAnalysis list \<times> app_state" where
  "process_loop e prompts keywords initial i results st =
     (if i < length prompts then
        (let analysisId = a_id (initial ! i);
             (result, st') = processPrompt e keywords (prompts ! i) i analysisId st
         in process_loop e prompts keywords initial (i + 1) (results @ [result])
              (setAnalyses (map (\<lambda>a. if a_id a = a_id result then result else a)) st'))
      else (results, st))"
  by pat_completeness auto
termination
  by (relation "measure (\<lambda>(e, prompts, keywords, initial, i, results, st). length prompts - i)") auto

declare process_loop.simps [simp del]

definition startAnalysis :: "env \<Rightarrow> string list \<Rightarrow> string list \<Rightarrow> app_state \<Rightarrow> app_state" where
  "startAnalysis e prompts keywords st =
     (if length prompts = 0 \<or> length keywords = 0 then st
      else
        (let st1 = st\<lparr>isRunning := True\<rparr>;
             (t, st2) = Date_now e st1;
             sessionId = ''session-'' @ Number_toString t;
             (startTime, st3) = Date_now e st2;
             session = \<lparr>s_id = sessionId, s_prompts = prompts, s_keywords = keywords, s_results = [],
                        s_startTime = startTime, s_endTime = None, s_status = Running\<rparr>;
             st4 = st3\<lparr>currentSession := Some session\<rparr>;
             (initial, st5) = initialAnalyses e prompts 0 st4;
             st6 = setAnalyses (\<lambda>prev. initial) st5;
             (results, st7) = process_loop e prompts keywords initial 0 [] st6;
             (endTime, st8) = Date_now e st7;
             st9 = st8\<lparr>currentSession :=
                      (case currentSession st8 of
                         None \<Rightarrow> None
                       | Some prev \<Rightarrow> Some (prev\<lparr>s_results := results, s_endTime := Some endTime,
                                                  s_status := Finished\<rparr>))\<rparr>
         in st9\<lparr>isRunning := False\<rparr>))"

definition resetAnalysis :: "app_state \<Rightarrow> app_state" where
  "resetAnalysis st = (setAnalyses (\<lambda>prev. []) st)\<lparr>currentSession := None, isRunning := False\<rparr>"

section \<open>The batch component\<close>

subsection \<open>String operations used by the parser\<close>

definition whitespace :: "char \<Rightarrow> bool" where
  "whitespace c = (c \<in> set [CHR 0x09, CHR 0x0A, CHR 0x0B, CHR 0x0C, CHR 0x0D, CHR 0x20, CHR 0xA0])"

definition trim :: "string \<Rightarrow> string" where
  "trim s = rev (dropWhile whitespace (rev (dropWhile whitespace s)))"

fun split :: "char \<Rightarrow> string \<Rightarrow> string list" where
  "split sep [] = [[]]"
| "split sep (c # cs) =
     (if c = sep then [] # split sep cs
      else (case split sep cs of [] \<Rightarrow> [[c]] | x # xs \<Rightarrow> (c # x) # xs))"

definition remove_quotes :: "string \<Rightarrow> string" where
  "remove_quotes s = filter (\<lambda>c. c \<noteq> CHR 0x22) s"

fun indexOf :: "string list \<Rightarrow> string \<Rightarrow> nat option" where
  "indexOf [] x = None"
| "indexOf (y # ys) x = (if y = x then Some 0 else map_option Suc (indexOf ys x))"

subsection \<open>\<open>parseCSV\<close>\<close>

text \<open>
  The inner loop over the characters of a line, with its \<open>current\<close> field, its
  \<open>inQuotes\<close> flag and the array \<open>fields\<close> (here \<open>flds\<close>).
\<close>

fun split_fields :: "string \<Rightarrow> string \<Rightarrow> bool \<Rightarrow> string list \<Rightarrow> string list" where
  "split_fields [] current inQuotes flds = flds @ [trim current]"
| "split_fields (ch # rest) current inQuotes flds =
     (if ch = CHR 0x22 then split_fields rest current (\<not> inQuotes) flds
      else if ch = CHR '','' \<and> \<not> inQuotes then split_fields rest [] inQuotes (flds @ [trim current])
      else split_fields rest (current @ [ch]) inQuotes flds)"

definition parse_line :: "nat \<Rightarrow> nat \<Rightarrow> string \<Rightarrow> BatchRow list \<Rightarrow> BatchRow list" where
  "parse_line promptIndex keywordsIndex raw rows =
     (let line = trim raw in
      if line = [] then rows
      else
        (let flds = split_fields line [] False [] in
         if length flds \<ge> max (promptIndex + 1) (keywordsIndex + 1) then
           (let prompt = trim (remove_quotes (flds ! promptIndex));
                keywordsStr = trim (remove_quotes (flds ! keywordsIndex))
            in if prompt \<noteq> [] \<and> keywordsStr \<noteq> [] then
                 rows @ [\<lparr>r_prompt = prompt,
                          r_keywords = filter (\<lambda>k. k \<noteq> []) (map trim (split CHR '','' keywordsStr))\<rparr>]
               else rows)
         else rows))"

definition missing_columns :: string where
  "missing_columns = ''CSV must contain '' @ [CHR 0x22] @ ''prompt'' @ [CHR 0x22] @ '' and ''
     @ [CHR 0x22] @ ''keywords'' @ [CHR 0x22] @ '' columns''"

definition parseCSV :: "string \<Rightarrow> string + BatchRow list" where
  "parseCSV csvText =
     (let lines = split CHR 0x0A (trim csvText);
          headers = map (\<lambda>h. remove_quotes (trim h)) (split CHR '','' (hd lines))
      in case (indexOf headers ''prompt'', indexOf headers ''keywords'') of
           (Some promptIndex, Some keywordsIndex) \<Rightarrow>
             Inr (fold (parse_line promptIndex keywordsIndex) (tl lines) [])
         | _ \<Rightarrow> Inl missing_columns)"

subsection \<open>The component state and its handlers\<close>

record batch_state = world +
  batchData :: "BatchRow list"
  batchSession :: "BatchAnalysisSession option"
  isProcessing :: bool
  error :: "string option"

definition no_valid_rows :: string where
  "no_valid_rows = ''No valid rows found in CSV file''"

definition too_many_rows :: string where
  "too_many_rows = ''Maximum 50 rows allowed per batch''"

text \<open>
  The body of the \<open>try\<close> in \<open>reader.onload\<close>: the rows, or the message of the
  \<open>Error\<close> thrown by the parser or by one of the two checks.
\<close>

definition checked_rows :: "string \<Rightarrow> string + BatchRow list" where
  "checked_rows csvText =
     (case parseCSV csvText of
        Inl msg \<Rightarrow> Inl msg
      | Inr rows \<Rightarrow>
          if length rows = 0 then Inl no_valid_rows
          else if length rows > 50 then Inl too_many_rows
          else Inr rows)"

text \<open>\<open>file\<close> is the text of the chosen file, \<open>None\<close> when no file was chosen.\<close>

definition handleFileUpload :: "string option \<Rightarrow> batch_state \<Rightarrow> batch_state" where
  "handleFileUpload file st =
     (case file of
        None \<Rightarrow> st
      | Some csvText \<Rightarrow>
          (let st1 = st\<lparr>error := None\<rparr>
           in case checked_rows csvText of
                Inr rows \<Rightarrow> st1\<lparr>batchData := rows, error := None\<rparr>
              | Inl msg \<Rightarrow> st1\<lparr>error := Some msg, batchData := []\<rparr>))"

definition setBatchSession ::
  "(BatchAnalysisSession \<Rightarrow> BatchAnalysisSession) \<Rightarrow> batch_state \<Rightarrow> batch_state" where
  "setBatchSession f st = st\<lparr>batchSession := map_option f (batchSession st)\<rparr>"

definition batch_errorAnalysis :: "env \<Rightarrow> nat \<Rightarrow> string \<Rightarrow> string \<Rightarrow> batch_state \<Rightarrow> PromptAnalysis \<times> batch_state" where
  "batch_errorAnalysis e i prompt msg st =
     (let (t1, st1) = Date_now e st;
          (t2, st2) = Date_now e st1
      in (\<lparr>a_id = ''batch-analysis-'' @ Number_toString t1 @ ''-'' @ Number_toString (int i),
           a_prompt = prompt, a_response = [], a_keywordMatches = [],
           a_timestamp = t2, a_status = Error, a_error = Some msg\<rparr>, st2))"

text \<open>
  One turn of the loop of \<open>processBatch\<close>, up to the \<open>results.push\<close>; the inner
  \<open>catch\<close> turns what is thrown into the item in error.
\<close>

definition process_row :: "env \<Rightarrow> nat \<Rightarrow> BatchRow \<Rightarrow> batch_state \<Rightarrow> PromptAnalysis \<times> batch_state" where
  "process_row e i row st =
     (let st1 = setBatchSession (\<lambda>prev. prev\<lparr>b_processedRows := i\<rparr>) st;
          (r, st2) = generateText e (r_prompt row) st1
      in case r of
           Resolved text \<Rightarrow>
             (case findKeywordMatches (env_RegExp e) (env_array_limit e) text (r_keywords row) of
                Inl msg \<Rightarrow> batch_errorAnalysis e i (r_prompt row) msg st2
              | Inr keywordMatches \<Rightarrow>
                  (let (t1, st3) = Date_now e st2;
                       (t2, st4) = Date_now e st3
                   in (\<lparr>a_id = ''batch-analysis-'' @ Number_toString t1 @ ''-'' @ Number_toString (int i),
                         a_prompt = r_prompt row, a_response = text,
                         a_keywordMatches = keywordMatches, a_timestamp = t2,
                         a_status = Completed, a_error = None\<rparr>, st4)))
         | Rejected_Error msg \<Rightarrow> batch_errorAnalysis e i (r_prompt row) msg st2
         | Rejected_other \<Rightarrow> batch_errorAnalysis e i (r_prompt row) unknown_error st2)"

function batch_loop ::
  "env \<Rightarrow> BatchRow list \<Rightarrow> nat \<Rightarrow> PromptAnalysis list \<Rightarrow> batch_state \<Rightarrow> PromptAnalysis list \<times> batch_state" where
  "batch_loop e rows i results st =
     (if i < length rows then
        (let (analysis, st') = process_row e i (rows ! i) st
         in batch_loop e rows (i + 1) (results @ [analysis]) st')
      else (results, st))"
  by pat_completeness auto
termination
  by (relation "measure (\<lambda>(e, rows, i, results, st). length rows - i)") auto

declare batch_loop.simps [simp del]

text \<open>
  \<open>processBatch\<close> returns the new state and the list it hands to \<open>onBatchComplete\<close>,
  \<open>None\<close> when that callback is not called. Nothing inside the outer \<open>try\<close> throws
  outside the inner one, so the outer \<open>catch\<close> has no branch here.
\<close>

definition processBatch :: "env \<Rightarrow> batch_state \<Rightarrow> batch_state \<times> PromptAnalysis list option" where
  "processBatch e st =
     (if length (batchData st) = 0 then (st, None)
      else
        (let st1 = st\<lparr>isProcessing := True, error := None\<rparr>;
             (t, st2) = Date_now e st1;
             sessionId = ''batch-'' @ Number_toString t;
             (startTime, st3) = Date_now e st2;
             (d, st4) = Date_now e st3;
             session = \<lparr>b_id = sessionId, b_name = ''Batch Analysis '' @ env_toLocaleString e d,
                        b_rows = batchData st, b_results = [], b_startTime = startTime,
                        b_endTime = None, b_status = Running,
                        b_totalRows = length (batchData st), b_processedRows = 0\<rparr>;
             st5 = st4\<lparr>batchSession := Some session\<rparr>;
             (results, st6) = batch_loop e (batchData st) 0 [] st5;
             (endTime, st7) = Date_now e st6;
             st8 = setBatchSession
                     (\<lambda>prev. prev\<lparr>b_results := results, b_endTime := Some endTime,
                                   b_status := Finished,
                                   b_processedRows := length (batchData st)\<rparr>) st7
         in (st8\<lparr>isProcessing := False\<rparr>, Some results)))"

section \<open>Notions used by the properties\<close>


text \<open>
  The keyword read as literal text, after the words of the specification: it occurs at
  index \<open>i\<close> of the text when the code units there equal its own up to case, and its
  occurrences are collected left to right without overlap.
\<close>

definition literal_at :: "string \<Rightarrow> string \<Rightarrow> nat \<Rightarrow> bool" where
  "literal_at kw text i =
     (i + length kw \<le> length text \<and>
      map Canonicalize (take (length kw) (drop i text)) = map Canonicalize kw)"

function literal_scan :: "string \<Rightarrow> string \<Rightarrow> nat \<Rightarrow> nat list" where
  "literal_scan kw text i =
     (if kw = [] \<or> length text < i + length kw then []
      else if literal_at kw text i then i # literal_scan kw text (i + length kw)
      else literal_scan kw text (i + 1))"
  by pat_completeness auto
termination
  by (relation "measure (\<lambda>(kw, text, i). length text + 1 - i)") (auto simp: neq_Nil_conv)

declare literal_scan.simps [simp del]

definition literal_matches :: "string \<Rightarrow> string \<Rightarrow> KeywordMatch list" where
  "literal_matches text kw =
     (let ps = literal_scan kw text 0
      in if ps = [] then [] else [\<lparr>keyword = kw, count = length ps, positions = ps\<rparr>])"

text \<open>
  The invariant of an item as the specification words it, and as the scheduler keeps it
  (a completed item may have an empty response).
\<close>

definition specified_item_invariant :: "PromptAnalysis \<Rightarrow> bool" where
  "specified_item_invariant a =
     (case a_status a of
        Completed \<Rightarrow> a_response a \<noteq> [] \<and> a_error a = None
      | Error \<Rightarrow> a_error a \<noteq> None \<and> a_response a = []
      | Pending \<Rightarrow> a_response a = [] \<and> a_error a = None
      | Processing \<Rightarrow> a_response a = [] \<and> a_error a = None)"

definition item_invariant :: "PromptAnalysis \<Rightarrow> bool" where
  "item_invariant a =
     (case a_status a of
        Completed \<Rightarrow> a_error a = None
      | Error \<Rightarrow> a_error a \<noteq> None \<and> a_response a = [] \<and> a_keywordMatches a = []
      | Pending \<Rightarrow> a_response a = [] \<and> a_error a = None \<and> a_keywordMatches a = []
      | Processing \<Rightarrow> a_response a = [] \<and> a_error a = None \<and> a_keywordMatches a = [])"

text \<open>
  The average response length as the specification words it: the mean over the completed
  items only, rounded, and 0 when none is completed.
\<close>

definition specified_averageResponseLength :: "PromptAnalysis list \<Rightarrow> nat" where
  "specified_averageResponseLength items =
     (let done = filter (\<lambda>a. a_status a = Completed) items
      in if done = [] then 0
         else Math_round_quotient (sum_list (map (\<lambda>a. length (a_response a)) done)) (length done))"

definition terminal :: "PromptAnalysis \<Rightarrow> bool" where
  "terminal a = (a_status a = Completed \<or> a_status a = Error)"

text \<open>
  An item records the outcome of its provider call: completed with the text and its
  matches when the call resolved and the scan returned, in error with the message of
  whatever was thrown otherwise.
\<close>

definition records_outcome :: "env \<Rightarrow> string list \<Rightarrow> outcome \<Rightarrow> PromptAnalysis \<Rightarrow> bool" where
  "records_outcome e keywords r a =
     (case r of
        Resolved text \<Rightarrow>
          (case findKeywordMatches (env_RegExp e) (env_array_limit e) text keywords of
             Inr ms \<Rightarrow> a_status a = Completed \<and> a_response a = text \<and> a_keywordMatches a = ms
                        \<and> a_error a = None
           | Inl msg \<Rightarrow> a_status a = Error \<and> a_error a = Some msg \<and> a_response a = []
                        \<and> a_keywordMatches a = [])
      | Rejected_Error msg \<Rightarrow> a_status a = Error \<and> a_error a = Some msg \<and> a_response a = []
                        \<and> a_keywordMatches a = []
      | Rejected_other \<Rightarrow> a_status a = Error \<and> a_error a = Some unknown_error \<and> a_response a = []
                        \<and> a_keywordMatches a = [])"

text \<open>
  What holds of \<open>analyses\<close> before turn \<open>i\<close> of the loop of \<open>startAnalysis\<close>: the
  ids are those of the placeholders, every item keeps its invariant, and an item is still
  pending when its id is that of a placeholder not yet processed, terminal otherwise.
\<close>

definition loop_invariant :: "PromptAnalysis list \<Rightarrow> nat \<Rightarrow> PromptAnalysis list \<Rightarrow> bool" where
  "loop_invariant initial i items =
     (map a_id items = map a_id initial \<and>
      (\<forall>a\<in>set items. item_invariant a \<and>
         (if a_id a \<in> a_id ` set (drop i initial) then a_status a = Pending else terminal a)))"

section \<open>Example environments\<close>

text \<open>
  Environments for evaluating the program: the array bound \<open>2\<^sup>3\<^sup>2 - 1\<close> of the language,
  a clock that advances by one at each reading, and a provider that rejects the prompt
  \<open>fail\<close> and answers every other prompt with the same text; then one with a clock that
  stands still, and one whose provider resolves with the empty text.
\<close>

definition example_env :: env where
  "example_env =
     \<lparr>env_RegExp = RegExp_gi,
      env_array_limit = 4294967295,
      env_clock = (\<lambda>k. 1000 + int k),
      env_generateText = (\<lambda>k prompt. if prompt = ''fail'' then Rejected_Error ''quota'' else Resolved ''AI in the cloud''),
      env_toLocaleString = Number_toString\<rparr>"

definition frozen_clock_env :: env where
  "frozen_clock_env = example_env\<lparr>env_clock := (\<lambda>k. 5)\<rparr>"

definition empty_text_env :: env where
  "empty_text_env = example_env\<lparr>env_generateText := (\<lambda>k prompt. Resolved [])\<rparr>"

definition initial_app :: app_state where
  "initial_app = \<lparr>ticks = 0, calls = [], analyses = [], currentSession = None, isRunning = False, history = []\<rparr>"

text \<open>A file with the header line and 51 rows \<open>p,k\<close>.\<close>

definition oversized_csv :: string where
  "oversized_csv = ''prompt,keywords'' @ concat (replicate 51 (CHR 0x0A # ''p,k''))"

definition initial_batch :: batch_state where
  "initial_batch = \<lparr>ticks = 0, calls = [], batchData = [], batchSession = None, isProcessing = False, error = None\<rparr>"

section \<open>Properties of the scans\<close>

lemma exec_bounds:
  "RegExpBuiltinExec m S i = Some (j, n) \<Longrightarrow> i \<le> j \<and> j \<le> length S \<and> m S j = Some n"
proof (induction m S i rule: RegExpBuiltinExec.induct)
  case (1 m S i)
  then show ?case
    by (subst (asm) (2) RegExpBuiltinExec.simps) (auto split: if_splits option.splits)
qed

lemma exec_None_beyond: "length S < i \<Longrightarrow> RegExpBuiltinExec m S i = None"
  by (simp add: RegExpBuiltinExec.simps)

lemma exec_at_match: "i \<le> length S \<Longrightarrow> m S i = Some n \<Longrightarrow> RegExpBuiltinExec m S i = Some (i, n)"
  by (simp add: RegExpBuiltinExec.simps)

lemma match_loop_beyond: "length S < i \<Longrightarrow> match_loop m S i = []"
  by (simp add: match_loop.simps exec_None_beyond)

lemma match_loop_None: "RegExpBuiltinExec m S i = None \<Longrightarrow> match_loop m S i = []"
  by (simp add: match_loop.simps)

lemma match_loop_Some:
  "RegExpBuiltinExec m S i = Some (j, n) \<Longrightarrow>
   match_loop m S i = (j, n) # match_loop m S (if take n (drop j S) = [] then j + n + 1 else j + n)"
  by (subst match_loop.simps) simp

lemma match_loop_Some_pos:
  assumes "RegExpBuiltinExec m S i = Some (j, n)" and "0 < n"
  shows "match_loop m S i = (j, n) # match_loop m S (j + n)"
proof (cases "j < length S")
  case True
  with assms show ?thesis by (simp add: match_loop_Some)
next
  case False
  with assms have "length S < j + n" by simp
  then have "match_loop m S (j + n) = []" "match_loop m S (j + n + 1) = []"
    by (simp_all add: match_loop_beyond)
  with assms show ?thesis by (simp add: match_loop_Some)
qed

lemma match_loop_sound:
  "(j, n) \<in> set (match_loop m S i) \<Longrightarrow> i \<le> j \<and> j \<le> length S \<and> m S j = Some n"
proof (induction m S i rule: match_loop.induct)
  case (1 m S i)
  show ?case
  proof (cases "RegExpBuiltinExec m S i")
    case None
    with 1(2) show ?thesis by (simp add: match_loop_None)
  next
    case (Some r)
    obtain j' n' where r: "r = (j', n')" by (cases r)
    from Some r have ex: "RegExpBuiltinExec m S i = Some (j', n')" by simp
    then have b: "i \<le> j'" "j' \<le> length S" "m S j' = Some n'" using exec_bounds by blast+
    from 1(2) ex have "(j, n) = (j', n') \<or>
        (j, n) \<in> set (match_loop m S (if take n' (drop j' S) = [] then j' + n' + 1 else j' + n'))"
      by (simp add: match_loop_Some)
    then show ?thesis
    proof
      assume "(j, n) = (j', n')"
      with b show ?thesis by simp
    next
      assume "(j, n) \<in> set (match_loop m S (if take n' (drop j' S) = [] then j' + n' + 1 else j' + n'))"
      from 1(1) [OF ex refl this] b show ?thesis by (auto split: if_splits)
    qed
  qed
qed

lemma match_loop_increasing: "sorted_wrt (<) (map fst (match_loop m S i))"
proof (induction m S i rule: match_loop.induct)
  case (1 m S i)
  show ?case
  proof (cases "RegExpBuiltinExec m S i")
    case None
    then show ?thesis by (simp add: match_loop_None)
  next
    case (Some r)
    obtain j n where r: "r = (j, n)" by (cases r)
    from Some r have ex: "RegExpBuiltinExec m S i = Some (j, n)" by simp
    let ?next = "if take n (drop j S) = [] then j + n + 1 else j + n"
    have lt: "j < ?next" by (cases "n = 0") auto
    have "\<forall>x\<in>set (match_loop m S ?next). j < fst x"
      using match_loop_sound [of _ _ m S ?next] lt by fastforce
    moreover have "sorted_wrt (<) (map fst (match_loop m S ?next))"
      using 1 [OF ex refl] by simp
    ultimately show ?thesis using ex by (simp add: match_loop_Some)
  qed
qed



text \<open>
  The loop over \<open>exec\<close> against the scan of \<open>match\<close>: it returns the indices of the
  same matches when none of them is empty and the array has room for them all, and it
  throws otherwise.
\<close>

lemma exec_loop_char:
  "length acc \<le> limit \<Longrightarrow>
   exec_loop m limit S i acc
     = (if (\<forall>x\<in>set (match_loop m S i). 0 < snd x) \<and> length acc + length (match_loop m S i) \<le> limit
        then Inr (acc @ map fst (match_loop m S i)) else Inl range_error)"
proof (induction m limit S i acc rule: exec_loop.induct)
  case (1 m limit S i acc)
  show ?case
  proof (cases "RegExpBuiltinExec m S i")
    case None
    with "1.prems" show ?thesis
      by (subst exec_loop.simps) (simp add: match_loop_None)
  next
    case (Some r)
    obtain j n where r: "r = (j, n)" by (cases r)
    from Some r have ex: "RegExpBuiltinExec m S i = Some (j, n)" by simp
    have first: "match_loop m S i = (j, n) # match_loop m S (if take n (drop j S) = [] then j + n + 1 else j + n)"
      using ex by (rule match_loop_Some)
    show ?thesis
    proof (cases "length acc < limit")
      case False
      with "1.prems" have "length acc = limit" by simp
      with ex first False show ?thesis
        by (subst exec_loop.simps) simp
    next
      case True
      then have room: "length (acc @ [j]) \<le> limit" by simp
      note ih = "1.IH" [OF ex refl True room]
      have step: "exec_loop m limit S i acc = exec_loop m limit S (j + n) (acc @ [j])"
        using ex True by (subst exec_loop.simps) simp
      show ?thesis
      proof (cases "n = 0")
        case n0: True
        from ex have "j \<le> length S" "m S j = Some n" using exec_bounds by blast+
        then have "RegExpBuiltinExec m S j = Some (j, n)" by (rule exec_at_match)
        then have "(j, 0) \<in> set (match_loop m S (j + n))" using n0 by (simp add: match_loop_Some)
        then have "\<not> (\<forall>x\<in>set (match_loop m S (j + n)). 0 < snd x)" by force
        then have "exec_loop m limit S (j + n) (acc @ [j]) = Inl range_error"
          unfolding ih by simp
        with step first n0 show ?thesis by simp
      next
        case False
        then have "match_loop m S i = (j, n) # match_loop m S (j + n)"
          using ex by (simp add: match_loop_Some_pos)
        with step ih False show ?thesis by simp
      qed
    qed
  qed
qed

lemma exec_loop_Inr:
  assumes "exec_loop m limit S 0 [] = Inr ps"
  shows "ps = map fst (match_loop m S 0) \<and> (\<forall>x\<in>set (match_loop m S 0). 0 < snd x)"
  using assms exec_loop_char [of "[]" limit m S 0] by (simp split: if_splits)


lemma exec_loop_stuck:
  assumes "m S 0 = Some 0"
  shows "RegExpBuiltinExec m S 0 = Some (0, 0)" and "exec_loop m limit S 0 [] = Inl range_error"
proof -
  from assms show ex: "RegExpBuiltinExec m S 0 = Some (0, 0)" by (simp add: exec_at_match)
  then have "(0, 0) \<in> set (match_loop m S 0)" by (simp add: match_loop_Some)
  then have "\<not> (\<forall>x\<in>set (match_loop m S 0). 0 < snd x)" by force
  then show "exec_loop m limit S 0 [] = Inl range_error"
    using exec_loop_char [of "[]" limit m S 0] by simp
qed

subsection \<open>What one keyword yields\<close>

lemma keyword_callback_Inr:
  assumes "keyword_callback R limit text kw = Inr km"
  shows "\<exists>m. R kw = Inr m \<and> keyword km = kw \<and> count km = length (match_loop m text 0)
           \<and> positions km = map fst (match_loop m text 0)
           \<and> (\<forall>x\<in>set (match_loop m text 0). 0 < snd x)"
proof (cases "R kw")
  case (Inl e)
  with assms show ?thesis by (simp add: keyword_callback_def)
next
  case (Inr m)
  with assms obtain ps where ps: "exec_loop m limit text 0 [] = Inr ps"
    and km: "km = \<lparr>keyword = kw, count = length (String_match m text), positions = ps\<rparr>"
    by (auto simp: keyword_callback_def Let_def split: sum.splits)
  from exec_loop_Inr [OF ps] km Inr show ?thesis
    by (simp add: String_match_def)
qed

lemma map_keywords_Inr:
  "map_keywords R limit text kws = Inr kms \<Longrightarrow> km \<in> set kms \<Longrightarrow>
   \<exists>kw\<in>set kws. keyword_callback R limit text kw = Inr km"
proof (induction kws arbitrary: kms)
  case Nil
  then show ?case by simp
next
  case (Cons kw kws)
  then show ?case
    by (fastforce split: sum.splits)
qed

lemma findKeywordMatches_Inr:
  assumes "findKeywordMatches R limit text kws = Inr ms" and "km \<in> set ms"
  shows "\<exists>kw\<in>set kws. keyword_callback R limit text kw = Inr km"
proof -
  from assms(1) obtain kms where "map_keywords R limit text kws = Inr kms"
    and "ms = filter (\<lambda>match. count match > 0) kms"
    by (auto simp: findKeywordMatches_def split: sum.splits)
  with assms(2) show ?thesis using map_keywords_Inr [of R limit "text" kws kms km] by simp
qed

lemmas matcher_eval = findKeywordMatches_def keyword_callback_def String_match_def
  exec_loop.simps RegExpBuiltinExec.simps match_loop.simps RegExp_gi_def compile_def
  is_quantifier_def quantifier_of_def syntax_char_def atom_of_def match_opt_def
  Canonicalize_def LineTerminator_def char_of_def bit_Suc_0_iff

text \<open>
  C5. Every keyword match that the matcher returns has as many positions as its count
  says, although \<open>match\<close> computes the count and the \<open>exec\<close> loop the positions.
\<close>

theorem positions_length_is_count:
  "findKeywordMatches R limit text kws = Inr ms \<Longrightarrow> \<forall>km\<in>set ms. length (positions km) = count km"
proof
  fix km
  assume "findKeywordMatches R limit text kws = Inr ms" and "km \<in> set ms"
  then obtain kw where "keyword_callback R limit text kw = Inr km"
    using findKeywordMatches_Inr by blast
  from keyword_callback_Inr [OF this] show "length (positions km) = count km" by auto
qed

theorem positions_length_is_count_witness:
  "findKeywordMatches RegExp_gi 4294967295 ''cat CAT cAt'' [''Cat'', ''dog'']
     = Inr [\<lparr>keyword = ''Cat'', count = 3, positions = [0, 4, 8]\<rparr>]
   \<and> length (positions \<lparr>keyword = ''Cat'', count = 3, positions = [0, 4, 8]\<rparr>)
     = count \<lparr>keyword = ''Cat'', count = 3, positions = [0, 4, 8]\<rparr>"
proof -
  have run: "findKeywordMatches RegExp_gi 4294967295 ''cat CAT cAt'' [''Cat'', ''dog'']
     = Inr [\<lparr>keyword = ''Cat'', count = 3, positions = [0, 4, 8]\<rparr>]"
    by (simp add: matcher_eval)
  from positions_length_is_count [OF run] run show ?thesis by simp
qed

text \<open>
  C9. Every keyword match that the matcher returns lists its positions in strictly
  increasing order.
\<close>

theorem positions_strictly_increasing:
  "findKeywordMatches R limit text kws = Inr ms \<Longrightarrow> \<forall>km\<in>set ms. sorted_wrt (<) (positions km)"
proof
  fix km
  assume "findKeywordMatches R limit text kws = Inr ms" and "km \<in> set ms"
  then obtain kw where "keyword_callback R limit text kw = Inr km"
    using findKeywordMatches_Inr by blast
  from keyword_callback_Inr [OF this] obtain m where "positions km = map fst (match_loop m text 0)"
    by blast
  then show "sorted_wrt (<) (positions km)" by (simp add: match_loop_increasing)
qed

theorem positions_strictly_increasing_witness:
  "findKeywordMatches RegExp_gi 4294967295 ''aaaa b'' [''aa'', ''b'']
     = Inr [\<lparr>keyword = ''aa'', count = 2, positions = [0, 2]\<rparr>,
            \<lparr>keyword = ''b'', count = 1, positions = [5]\<rparr>]
   \<and> sorted_wrt (<) (positions \<lparr>keyword = ''aa'', count = 2, positions = [0, 2]\<rparr>)"
proof -
  have run: "findKeywordMatches RegExp_gi 4294967295 ''aaaa b'' [''aa'', ''b'']
     = Inr [\<lparr>keyword = ''aa'', count = 2, positions = [0, 2]\<rparr>,
            \<lparr>keyword = ''b'', count = 1, positions = [5]\<rparr>]"
    by (simp add: matcher_eval)
  from positions_strictly_increasing [OF run] run show ?thesis by simp
qed

subsection \<open>When the matcher returns matches\<close>




lemma keyword_callback_stuck:
  "R kw = Inr m \<Longrightarrow> m text 0 = Some 0 \<Longrightarrow> keyword_callback R limit text kw = Inl range_error"
  by (simp add: keyword_callback_def exec_loop_stuck)

subsection \<open>The constructor of the fragment\<close>







subsection \<open>Keywords without syntax characters\<close>

lemma quantifier_is_syntax: "is_quantifier c \<Longrightarrow> syntax_char c"
  by (auto simp: is_quantifier_def syntax_char_def)

lemma atom_of_plain: "\<not> syntax_char c \<Longrightarrow> atom_of c = Some (Lit c)"
  by (auto simp: atom_of_def syntax_char_def)

lemma parse_plain:
  "\<forall>c\<in>set kw. \<not> syntax_char c \<Longrightarrow> parse_pattern kw = Inr (map (\<lambda>c. (Lit c, Once)) kw)"
proof (induction kw)
  case Nil
  then show ?case by simp
next
  case (Cons c cs)
  then have c: "\<not> is_quantifier c" "atom_of c = Some (Lit c)"
    using quantifier_is_syntax atom_of_plain by auto
  show ?case
  proof (cases cs)
    case Nil
    with c show ?thesis by simp
  next
    case (Cons q rest)
    with Cons.prems have "\<not> is_quantifier q" using quantifier_is_syntax by auto
    with c Cons Cons.IH Cons.prems show ?thesis by simp
  qed
qed

lemma match_plain:
  "match_pattern (map (\<lambda>c. (Lit c, Once)) kw) s
     = (if length kw \<le> length s \<and> map Canonicalize (take (length kw) s) = map Canonicalize kw
        then Some (length kw) else None)"
proof (induction kw arbitrary: s)
  case Nil
  then show ?case by simp
next
  case (Cons c cs)
  show ?case
  proof (cases s)
    case Nil
    then show ?thesis by simp
  next
    case (Cons d ds)
    with Cons.IH [of ds] show ?thesis by auto
  qed
qed

lemma compile_plain:
  assumes "kw \<noteq> []"
  shows "compile (map (\<lambda>c. (Lit c, Once)) kw) text i
           = (if literal_at kw text i then Some (length kw) else None)"
proof -
  have "length kw \<le> length (drop i text) \<longleftrightarrow> i + length kw \<le> length text"
    using assms by (cases kw) auto
  then show ?thesis
    by (simp add: compile_def match_plain literal_at_def del: length_drop)
qed

lemma exec_None:
  "(\<forall>j. i \<le> j \<and> j \<le> length S \<longrightarrow> m S j = None) \<Longrightarrow> RegExpBuiltinExec m S i = None"
proof (induction m S i rule: RegExpBuiltinExec.induct)
  case (1 m S i)
  show ?case
  proof (cases "length S < i")
    case True
    then show ?thesis by (simp add: exec_None_beyond)
  next
    case False
    with 1 show ?thesis by (subst RegExpBuiltinExec.simps) auto
  qed
qed

lemma match_loop_skip:
  assumes "m S i = None" and "i \<le> length S"
  shows "match_loop m S i = match_loop m S (i + 1)"
proof -
  from assms have "RegExpBuiltinExec m S i = RegExpBuiltinExec m S (i + 1)"
    by (subst RegExpBuiltinExec.simps) simp
  then show ?thesis by (subst (1 2) match_loop.simps) simp
qed

lemma match_loop_plain:
  "kw \<noteq> [] \<Longrightarrow>
   match_loop (compile (map (\<lambda>c. (Lit c, Once)) kw)) tx i
     = map (\<lambda>j. (j, length kw)) (literal_scan kw tx i)"
proof (induction kw tx i rule: literal_scan.induct)
  case (1 kw tx i)
  let ?m = "compile (map (\<lambda>c. (Lit c, Once)) kw)"
  have mi: "?m tx j = (if literal_at kw tx j then Some (length kw) else None)" for j
    using "1.prems" by (rule compile_plain)
  show ?case
  proof (cases "length tx < i + length kw")
    case True
    then have "\<forall>j. i \<le> j \<and> j \<le> length tx \<longrightarrow> ?m tx j = None"
      by (simp add: mi literal_at_def)
    then have "RegExpBuiltinExec ?m tx i = None" by (rule exec_None)
    with True show ?thesis by (simp add: match_loop_None literal_scan.simps)
  next
    case False
    then have i: "i \<le> length tx" by simp
    show ?thesis
    proof (cases "literal_at kw tx i")
      case True
      with i have "RegExpBuiltinExec ?m tx i = Some (i, length kw)"
        by (simp add: exec_at_match mi)
      then have "match_loop ?m tx i = (i, length kw) # match_loop ?m tx (i + length kw)"
        using "1.prems" by (simp add: match_loop_Some_pos)
      with "1.IH"(1) "1.prems" False True show ?thesis
        by (subst literal_scan.simps) simp
    next
      case lit: False
      then have "match_loop ?m tx i = match_loop ?m tx (i + 1)"
        using i by (simp add: match_loop_skip mi)
      with "1.IH"(2) "1.prems" False lit show ?thesis
        by (subst literal_scan.simps) simp
    qed
  qed
qed

text \<open>
  C3, as the code has it. The keyword is handed to the constructor as pattern syntax. A
  keyword that is not empty and has no syntax character is found exactly where it occurs
  literally, up to case, left to right and without overlap (the call throwing when there
  are more occurrences than an array holds).
\<close>

theorem plain_keyword_matches_literally:
  "kw \<noteq> [] \<Longrightarrow> \<forall>c\<in>set kw. \<not> syntax_char c \<Longrightarrow>
   findKeywordMatches RegExp_gi limit tx [kw]
     = (if length (literal_scan kw tx 0) \<le> limit then Inr (literal_matches tx kw)
        else Inl range_error)"
proof -
  assume kw: "kw \<noteq> []" and plain: "\<forall>c\<in>set kw. \<not> syntax_char c"
  let ?m = "compile (map (\<lambda>c. (Lit c, Once)) kw)"
  from plain have R: "RegExp_gi kw = Inr ?m" by (simp add: RegExp_gi_def parse_plain)
  have ml: "match_loop ?m tx 0 = map (\<lambda>j. (j, length kw)) (literal_scan kw tx 0)"
    using kw by (rule match_loop_plain)
  have "\<forall>x\<in>set (match_loop ?m tx 0). 0 < snd x" unfolding ml using kw by auto
  then have "exec_loop ?m limit tx 0 []
          = (if length (literal_scan kw tx 0) \<le> limit then Inr (literal_scan kw tx 0)
             else Inl range_error)"
    using exec_loop_char [of "[]" limit ?m tx 0] by (simp add: ml comp_def)
  with R have "keyword_callback RegExp_gi limit tx kw
          = (if length (literal_scan kw tx 0) \<le> limit
             then Inr \<lparr>keyword = kw, count = length (literal_scan kw tx 0),
                        positions = literal_scan kw tx 0\<rparr>
             else Inl range_error)"
    by (simp add: keyword_callback_def String_match_def ml)
  then show ?thesis
    by (simp add: findKeywordMatches_def literal_matches_def Let_def)
qed

lemmas literal_eval = literal_matches_def literal_scan.simps literal_at_def

theorem plain_keyword_matches_literally_witness:
  "''Cat'' \<noteq> [] \<and> \<not> syntax_char CHR ''C'' \<and> \<not> syntax_char CHR ''a'' \<and> \<not> syntax_char CHR ''t''
   \<and> literal_matches ''cat CAT cAt'' ''Cat'' = [\<lparr>keyword = ''Cat'', count = 3, positions = [0, 4, 8]\<rparr>]
   \<and> findKeywordMatches RegExp_gi 4294967295 ''cat CAT cAt'' [''Cat'']
       = Inr [\<lparr>keyword = ''Cat'', count = 3, positions = [0, 4, 8]\<rparr>]"
proof -
  have p: "\<not> syntax_char CHR ''C'' \<and> \<not> syntax_char CHR ''a'' \<and> \<not> syntax_char CHR ''t''"
    by (simp add: syntax_char_def)
  have s: "literal_scan ''Cat'' ''cat CAT cAt'' 0 = [0, 4, 8]"
    by (simp add: literal_eval Canonicalize_def char_of_def bit_Suc_0_iff)
  then have l: "literal_matches ''cat CAT cAt'' ''Cat'' = [\<lparr>keyword = ''Cat'', count = 3, positions = [0, 4, 8]\<rparr>]"
    by (simp add: literal_matches_def)
  from plain_keyword_matches_literally [of "''Cat''" 4294967295 "''cat CAT cAt''"] p l s
  show ?thesis by simp
qed

theorem keyword_is_pattern_syntax_counterexample:
  "findKeywordMatches RegExp_gi 4294967295 ''axb'' [''a.b'']
     = Inr [\<lparr>keyword = ''a.b'', count = 1, positions = [0]\<rparr>]
   \<and> literal_matches ''axb'' ''a.b'' = []
   \<and> findKeywordMatches RegExp_gi 4294967295 ''axb'' [''a.b''] \<noteq> Inr (literal_matches ''axb'' ''a.b'')"
  by (simp add: matcher_eval literal_eval Canonicalize_def char_of_def bit_Suc_0_iff)

section \<open>Properties of the analytics\<close>

lemma fold_add_sum_list: "fold (\<lambda>a sum. sum + f a) xs (acc::nat) = acc + sum_list (map f xs)"
  by (induction xs arbitrary: acc) simp_all

lemma Math_round_quotient_is_round:
  assumes "0 < n"
  shows "int (Math_round_quotient s n) = round (real s / real n)"
proof -
  have "real s / real n + 1 / 2 = real (2 * s + n) / real (2 * n)"
    using assms by (simp add: field_simps)
  then have "round (real s / real n) = \<lfloor>real (2 * s + n) / real (2 * n)\<rfloor>"
    by (simp add: round_def)
  also have "\<dots> = int ((2 * s + n) div (2 * n))"
    by (rule floor_divide_of_nat_eq)
  finally show ?thesis by (simp add: Math_round_quotient_def)
qed

lemma no_response_no_length:
  assumes "\<forall>a\<in>set items. a_status a \<noteq> Completed \<and> item_invariant a"
  shows "sum_list (map (\<lambda>a. length (a_response a)) items) = 0"
proof -
  have "a_response a = []" if "a \<in> set items" for a
    using assms that by (cases "a_status a") (auto simp: item_invariant_def)
  then show ?thesis by (induction items) auto
qed

text \<open>
  C1, as the code has it. The average response length is the total length of the
  responses of all items divided by the number of all items, rounded to the nearest
  integer with a half going up, and 0 for the empty list. It is 0 as well when no item is
  completed and every item keeps the invariant of the scheduler, since the other items
  have empty responses.
\<close>

theorem averageResponseLength_over_all_items:
  "int (averageResponseLength (analytics now items session))
     = (if items = [] then 0
        else round (real (sum_list (map (\<lambda>a. length (a_response a)) items)) / real (length items)))
   \<and> ((\<forall>a\<in>set items. a_status a \<noteq> Completed \<and> item_invariant a)
        \<longrightarrow> averageResponseLength (analytics now items session) = 0)"
proof (intro conjI impI)
  show "int (averageResponseLength (analytics now items session))
     = (if items = [] then 0
        else round (real (sum_list (map (\<lambda>a. length (a_response a)) items)) / real (length items)))"
    by (simp add: analytics_def fold_add_sum_list Math_round_quotient_is_round)
next
  assume "\<forall>a\<in>set items. a_status a \<noteq> Completed \<and> item_invariant a"
  then have z: "sum_list (map (\<lambda>a. length (a_response a)) items) = 0"
    by (rule no_response_no_length)
  have "averageResponseLength (analytics now items session)
          = (if items = [] then 0
             else Math_round_quotient (sum_list (map (\<lambda>a. length (a_response a)) items)) (length items))"
    by (simp add: analytics_def fold_add_sum_list)
  also have "\<dots> = 0"
    unfolding z by (cases items) (simp_all add: Math_round_quotient_def)
  finally show "averageResponseLength (analytics now items session) = 0" .
qed

theorem averageResponseLength_over_all_items_witness:
  "averageResponseLength
     (analytics 0
        [\<lparr>a_id = ''analysis-1-0'', a_prompt = ''p'', a_response = ''abcde'', a_keywordMatches = [],
          a_timestamp = 2, a_status = Completed, a_error = None\<rparr>,
         \<lparr>a_id = ''analysis-1-1'', a_prompt = ''q'', a_response = [], a_keywordMatches = [],
          a_timestamp = 3, a_status = Error, a_error = Some ''failed''\<rparr>]
        None) = 3
   \<and> item_invariant \<lparr>a_id = ''analysis-1-0'', a_prompt = ''p'', a_response = [], a_keywordMatches = [],
          a_timestamp = 2, a_status = Processing, a_error = None\<rparr>
   \<and> item_invariant \<lparr>a_id = ''analysis-1-1'', a_prompt = ''q'', a_response = [], a_keywordMatches = [],
          a_timestamp = 3, a_status = Error, a_error = Some ''failed''\<rparr>
   \<and> averageResponseLength
     (analytics 0
        [\<lparr>a_id = ''analysis-1-0'', a_prompt = ''p'', a_response = [], a_keywordMatches = [],
          a_timestamp = 2, a_status = Processing, a_error = None\<rparr>,
         \<lparr>a_id = ''analysis-1-1'', a_prompt = ''q'', a_response = [], a_keywordMatches = [],
          a_timestamp = 3, a_status = Error, a_error = Some ''failed''\<rparr>]
        None) = 0"
proof -
  let ?c = "\<lparr>a_id = ''analysis-1-0'', a_prompt = ''p'', a_response = ''abcde'', a_keywordMatches = [],
          a_timestamp = 2, a_status = Completed, a_error = None\<rparr>"
  let ?p = "\<lparr>a_id = ''analysis-1-0'', a_prompt = ''p'', a_response = [], a_keywordMatches = [],
          a_timestamp = 2, a_status = Processing, a_error = None\<rparr>"
  let ?e = "\<lparr>a_id = ''analysis-1-1'', a_prompt = ''q'', a_response = [], a_keywordMatches = [],
          a_timestamp = 3, a_status = Error, a_error = Some ''failed''\<rparr>"
  have inv: "item_invariant ?p" "item_invariant ?e" by (simp_all add: item_invariant_def)
  have "round (5 / 2 :: real) = 3" by (simp add: round_def)
  with averageResponseLength_over_all_items [of 0 "[?c, ?e]" None]
  have 1: "averageResponseLength (analytics 0 [?c, ?e] None) = 3" by simp
  from averageResponseLength_over_all_items [of 0 "[?p, ?e]" None] inv
  have 2: "averageResponseLength (analytics 0 [?p, ?e] None) = 0" by simp
  from 1 2 inv show ?thesis by simp
qed

theorem averageResponseLength_counterexample:
  "averageResponseLength
     (analytics 0
        [\<lparr>a_id = ''analysis-1-0'', a_prompt = ''p'', a_response = ''abcd'', a_keywordMatches = [],
          a_timestamp = 2, a_status = Completed, a_error = None\<rparr>,
         \<lparr>a_id = ''analysis-1-1'', a_prompt = ''q'', a_response = [], a_keywordMatches = [],
          a_timestamp = 3, a_status = Error, a_error = Some ''failed''\<rparr>]
        None) = 2
   \<and> specified_averageResponseLength
        [\<lparr>a_id = ''analysis-1-0'', a_prompt = ''p'', a_response = ''abcd'', a_keywordMatches = [],
          a_timestamp = 2, a_status = Completed, a_error = None\<rparr>,
         \<lparr>a_id = ''analysis-1-1'', a_prompt = ''q'', a_response = [], a_keywordMatches = [],
          a_timestamp = 3, a_status = Error, a_error = Some ''failed''\<rparr>] = 4"
  by (simp add: analytics_def specified_averageResponseLength_def Math_round_quotient_def)

text \<open>
  C6, as the code has it. Two computations of the analytics on the same items and the
  same session, at two readings of the clock, agree on every field but the processing
  time; they agree on that one too when there is no session or the session has a
  non-zero end time; for a session without end time the processing time is the reading
  of the clock minus the start time.
\<close>

theorem analytics_repeatable_up_to_clock:
  "totalPrompts (analytics now1 items session) = totalPrompts (analytics now2 items session)
   \<and> totalResponses (analytics now1 items session) = totalResponses (analytics now2 items session)
   \<and> totalKeywordMatches (analytics now1 items session) = totalKeywordMatches (analytics now2 items session)
   \<and> averageResponseLength (analytics now1 items session) = averageResponseLength (analytics now2 items session)
   \<and> keywordFrequency (analytics now1 items session) = keywordFrequency (analytics now2 items session)
   \<and> (session = None \<or> (\<exists>s t. session = Some s \<and> s_endTime s = Some t \<and> t \<noteq> 0)
        \<longrightarrow> analytics now1 items session = analytics now2 items session)
   \<and> (\<forall>s. session = Some s \<and> s_endTime s = None
        \<longrightarrow> processingTime (analytics now1 items session) = now1 - s_startTime s)"
  by (auto simp: analytics_def)

theorem analytics_repeatable_up_to_clock_witness:
  "s_endTime \<lparr>s_id = ''session-5'', s_prompts = [''p''], s_keywords = [''k''], s_results = [],
              s_startTime = 5, s_endTime = Some 9, s_status = Finished\<rparr> = Some 9
   \<and> (9::int) \<noteq> 0
   \<and> analytics 10 [] (Some \<lparr>s_id = ''session-5'', s_prompts = [''p''], s_keywords = [''k''], s_results = [],
              s_startTime = 5, s_endTime = Some 9, s_status = Finished\<rparr>)
     = analytics 20 [] (Some \<lparr>s_id = ''session-5'', s_prompts = [''p''], s_keywords = [''k''], s_results = [],
              s_startTime = 5, s_endTime = Some 9, s_status = Finished\<rparr>)
   \<and> processingTime (analytics 20 [] (Some \<lparr>s_id = ''session-5'', s_prompts = [''p''], s_keywords = [''k''], s_results = [],
              s_startTime = 5, s_endTime = Some 9, s_status = Finished\<rparr>)) = 4
   \<and> s_endTime \<lparr>s_id = ''session-5'', s_prompts = [''p''], s_keywords = [''k''], s_results = [],
              s_startTime = 5, s_endTime = None, s_status = Running\<rparr> = None
   \<and> processingTime (analytics 20 [] (Some \<lparr>s_id = ''session-5'', s_prompts = [''p''], s_keywords = [''k''], s_results = [],
              s_startTime = 5, s_endTime = None, s_status = Running\<rparr>)) = 15"
proof -
  let ?s = "\<lparr>s_id = ''session-5'', s_prompts = [''p''], s_keywords = [''k''], s_results = [],
              s_startTime = 5, s_endTime = Some 9, s_status = Finished\<rparr>"
  let ?r = "\<lparr>s_id = ''session-5'', s_prompts = [''p''], s_keywords = [''k''], s_results = [],
              s_startTime = 5, s_endTime = None, s_status = Running\<rparr>"
  have "\<exists>s t. Some ?s = Some s \<and> s_endTime s = Some t \<and> t \<noteq> 0" by simp
  with analytics_repeatable_up_to_clock [of 10 "[]" "Some ?s" 20]
  have "analytics 10 [] (Some ?s) = analytics 20 [] (Some ?s)" by blast
  moreover have "processingTime (analytics 20 [] (Some ?s)) = 4" by (simp add: analytics_def)
  moreover from analytics_repeatable_up_to_clock [of 20 "[]" "Some ?r" 20]
  have "processingTime (analytics 20 [] (Some ?r)) = 20 - s_startTime ?r" by simp
  ultimately show ?thesis by simp
qed

theorem analytics_processingTime_counterexample:
  "processingTime (analytics 1 [] (Some \<lparr>s_id = ''session-0'', s_prompts = [''p''], s_keywords = [''k''],
        s_results = [], s_startTime = 0, s_endTime = None, s_status = Running\<rparr>)) = 1
   \<and> processingTime (analytics 2 [] (Some \<lparr>s_id = ''session-0'', s_prompts = [''p''], s_keywords = [''k''],
        s_results = [], s_startTime = 0, s_endTime = None, s_status = Running\<rparr>)) = 2
   \<and> analytics 1 [] (Some \<lparr>s_id = ''session-0'', s_prompts = [''p''], s_keywords = [''k''],
        s_results = [], s_startTime = 0, s_endTime = None, s_status = Running\<rparr>)
     \<noteq> analytics 2 [] (Some \<lparr>s_id = ''session-0'', s_prompts = [''p''], s_keywords = [''k''],
        s_results = [], s_startTime = 0, s_endTime = None, s_status = Running\<rparr>)"
  by (simp add: analytics_def)

section \<open>Identifiers built from numbers\<close>

lemma digit_cases:
  "(d::nat) < 10 \<Longrightarrow> d = 0 \<or> d = 1 \<or> d = 2 \<or> d = 3 \<or> d = 4 \<or> d = 5 \<or> d = 6 \<or> d = 7 \<or> d = 8 \<or> d = 9"
  by presburger

lemma digit_char_value: "d < 10 \<Longrightarrow> (of_char (digit_char d) :: nat) = 48 + d"
  by (drule digit_cases) (auto simp: digit_char_def)

lemma digit_char_not_minus: "d < 10 \<Longrightarrow> digit_char d \<noteq> CHR ''-''"
  by (drule digit_cases) (auto simp: digit_char_def)

lemma digits_value: "fold (\<lambda>c acc. 10 * acc + (of_char c - 48)) (digits n) 0 = n"
proof (induction n rule: digits.induct)
  case (1 n)
  show ?case
  proof (cases "n < 10")
    case True
    then have "digits n = [digit_char n]" by (subst digits.simps) simp
    with True show ?thesis by (simp add: digit_char_value)
  next
    case False
    then have d: "digits n = digits (n div 10) @ [digit_char (n mod 10)]"
      by (subst digits.simps) simp
    have "(of_char (digit_char (n mod 10)) :: nat) = 48 + n mod 10"
      by (rule digit_char_value) simp
    with 1 [OF False] show ?thesis unfolding d by simp
  qed
qed

lemma digits_inj:
  assumes "digits m = digits n"
  shows "m = n"
proof -
  have "m = fold (\<lambda>c acc. 10 * acc + (of_char c - 48)) (digits m) 0"
    by (simp only: digits_value)
  also have "\<dots> = fold (\<lambda>c acc. 10 * acc + (of_char c - 48)) (digits n) 0"
    by (simp only: assms)
  also have "\<dots> = n" by (simp only: digits_value)
  finally show ?thesis .
qed

lemma digits_no_minus: "CHR ''-'' \<notin> set (digits n)"
proof (induction n rule: digits.induct)
  case (1 n)
  show ?case
  proof (cases "n < 10")
    case True
    then show ?thesis using digit_char_not_minus [of n] by (subst digits.simps) auto
  next
    case False
    with 1 show ?thesis using digit_char_not_minus [of "n mod 10"]
      by (subst digits.simps) auto
  qed
qed

lemma digits_not_Nil: "digits n \<noteq> []"
  by (subst digits.simps) simp

lemma Number_toString_inj: "Number_toString i = Number_toString j \<Longrightarrow> i = j"
proof -
  assume eq: "Number_toString i = Number_toString j"
  have hd: "hd (digits n) \<noteq> CHR ''-''" for n
    using digits_no_minus [of n] digits_not_Nil [of n] by (cases "digits n") auto
  show "i = j"
  proof (cases "i < 0")
    case True
    show ?thesis
    proof (cases "j < 0")
      case jneg: True
      with True eq have "digits (nat (- i)) = digits (nat (- j))" by (simp add: Number_toString_def)
      then have "nat (- i) = nat (- j)" by (rule digits_inj)
      with True jneg show ?thesis by simp
    next
      case False
      with True eq have "CHR ''-'' # digits (nat (- i)) = digits (nat j)" by (simp add: Number_toString_def)
      from this [symmetric] have "hd (digits (nat j)) = CHR ''-''" by simp
      with hd show ?thesis by simp
    qed
  next
    case False
    show ?thesis
    proof (cases "j < 0")
      case True
      with False eq have "digits (nat i) = CHR ''-'' # digits (nat (- j))" by (simp add: Number_toString_def)
      then have "hd (digits (nat i)) = CHR ''-''" by simp
      with hd show ?thesis by simp
    next
      case jpos: False
      with False eq have "digits (nat i) = digits (nat j)" by (simp add: Number_toString_def)
      then have "nat i = nat j" by (rule digits_inj)
      with False jpos show ?thesis by simp
    qed
  qed
qed

lemma suffix_after_last_minus:
  assumes "u @ CHR ''-'' # d = u' @ CHR ''-'' # d'"
    and "CHR ''-'' \<notin> set d" and "CHR ''-'' \<notin> set d'"
  shows "d = d'"
proof -
  have "takeWhile (\<lambda>c. c \<noteq> CHR ''-'') (rev (v @ CHR ''-'' # w)) = rev w" if "CHR ''-'' \<notin> set w" for v w
  proof -
    from that have "\<forall>x\<in>set (rev w). x \<noteq> CHR ''-''" by auto
    then have "takeWhile (\<lambda>c. c \<noteq> CHR ''-'') (rev w @ CHR ''-'' # rev v) = rev w"
      by (simp add: takeWhile_tail)
    then show ?thesis by simp
  qed
  from this [OF assms(2), of u] this [OF assms(3), of u'] assms(1) show ?thesis by simp
qed

lemma analysis_id_index:
  assumes "p @ Number_toString t @ ''-'' @ Number_toString (int k)
         = p @ Number_toString t' @ ''-'' @ Number_toString (int k')"
  shows "k = k'"
proof -
  have d: "Number_toString (int n) = digits n" for n
    by (simp add: Number_toString_def)
  from assms have "Number_toString t @ CHR ''-'' # digits k = Number_toString t' @ CHR ''-'' # digits k'"
    by (simp add: d)
  then have "digits k = digits k'"
    by (rule suffix_after_last_minus) (rule digits_no_minus)+
  then show ?thesis by (rule digits_inj)
qed

section \<open>Properties of the scheduler\<close>

subsection \<open>One prompt\<close>

lemma processPrompt_props:
  assumes "processPrompt e kws prompt index aid st = (result, st')"
  shows "a_id result = aid" and "a_prompt result = prompt"
    and "terminal result" and "item_invariant result"
    and "analyses st' = map (\<lambda>a. if a_id a = aid then a\<lparr>a_status := Processing\<rparr> else a) (analyses st)"
    and "history st' = history st @ [analyses st']"
    and "currentSession st' = currentSession st"
    and "calls st' = calls st @ [prompt]"
    and "ticks st' = ticks st + 1"
    and "isRunning st' = isRunning st"
    and "records_outcome e kws (env_generateText e (length (calls st)) prompt) result"
  using assms
  by (auto simp: processPrompt_def errorAnalysis_def setAnalyses_def generateText_def Date_now_def
        Let_def terminal_def item_invariant_def records_outcome_def
      split: outcome.splits sum.splits)

subsection \<open>The loop\<close>

lemma ids_drop:
  assumes "i < length initial" and "distinct (map a_id initial)"
  shows "a_id ` set (drop i initial) = insert (a_id (initial ! i)) (a_id ` set (drop (Suc i) initial))"
    and "a_id (initial ! i) \<notin> a_id ` set (drop (Suc i) initial)"
proof -
  from assms(1) have d: "drop i initial = initial ! i # drop (Suc i) initial"
    by (simp add: Cons_nth_drop_Suc)
  then show "a_id ` set (drop i initial) = insert (a_id (initial ! i)) (a_id ` set (drop (Suc i) initial))"
    by simp
  from assms(2) have "distinct (map a_id (drop i initial))"
    by (simp add: drop_map [symmetric] distinct_drop)
  with d show "a_id (initial ! i) \<notin> a_id ` set (drop (Suc i) initial)" by simp
qed

lemma invariant_after_mark:
  assumes "loop_invariant initial i items" and "aid \<in> a_id ` set (drop i initial)"
  shows "\<forall>a\<in>set (map (\<lambda>a. if a_id a = aid then a\<lparr>a_status := Processing\<rparr> else a) items). item_invariant a"
  using assms by (auto simp: loop_invariant_def item_invariant_def split: if_splits)

lemma invariant_after_result:
  assumes inv: "loop_invariant initial i items"
    and i: "i < length initial" and dist: "distinct (map a_id initial)"
    and res: "a_id result = a_id (initial ! i)" "terminal result" "item_invariant result"
  shows "loop_invariant initial (Suc i)
           (map (\<lambda>a. if a_id a = a_id result then result else a)
              (map (\<lambda>a. if a_id a = a_id result then a\<lparr>a_status := Processing\<rparr> else a) items))"
proof -
  note ids = ids_drop [OF i dist]
  let ?new = "map (\<lambda>a. if a_id a = a_id result then result else a)
              (map (\<lambda>a. if a_id a = a_id result then a\<lparr>a_status := Processing\<rparr> else a) items)"
  have new: "?new = map (\<lambda>a. if a_id a = a_id result then result else a) items"
    by (simp add: comp_def)
  have "map a_id ?new = map a_id items" unfolding new by (induction items) auto
  with inv have 1: "map a_id ?new = map a_id initial" by (simp add: loop_invariant_def)
  have 2: "item_invariant b \<and> (if a_id b \<in> a_id ` set (drop (Suc i) initial) then a_status b = Pending else terminal b)"
    if "b \<in> set ?new" for b
  proof -
    from that obtain a where a: "a \<in> set items" and b: "b = (if a_id a = a_id result then result else a)"
      unfolding new by auto
    from inv a have ia: "item_invariant a"
      and sa: "if a_id a \<in> a_id ` set (drop i initial) then a_status a = Pending else terminal a"
      by (auto simp: loop_invariant_def)
    show ?thesis
    proof (cases "a_id a = a_id result")
      case True
      with b res ids(2) show ?thesis by simp
    next
      case False
      with b have "b = a" by simp
      with False ia sa res(1) ids(1) show ?thesis by (auto split: if_splits)
    qed
  qed
  from 1 2 show ?thesis unfolding loop_invariant_def by blast
qed

lemma process_loop_props:
  assumes "process_loop e prompts kws initial i results st = (results', st')"
    and "length initial = length prompts" and "distinct (map a_id initial)"
    and "loop_invariant initial i (analyses st)"
  shows "loop_invariant initial (length prompts) (analyses st')
       \<and> (\<exists>ext. history st' = history st @ ext \<and> (\<forall>items\<in>set ext. \<forall>a\<in>set items. item_invariant a))
       \<and> (\<exists>new. results' = results @ new \<and> length new = length prompts - i
                \<and> (\<forall>k<length new. a_id (new ! k) = a_id (initial ! (i + k))
                       \<and> a_prompt (new ! k) = prompts ! (i + k)
                       \<and> terminal (new ! k) \<and> item_invariant (new ! k)
                       \<and> records_outcome e kws
                            (env_generateText e (length (calls st) + k) (prompts ! (i + k))) (new ! k)))
       \<and> currentSession st' = currentSession st
       \<and> calls st' = calls st @ drop i prompts
       \<and> ticks st' = ticks st + (length prompts - i)
       \<and> isRunning st' = isRunning st"
  using assms
proof (induction e prompts kws initial i results st rule: process_loop.induct)
  case (1 e prompts kws initial i results st)
  show ?case
  proof (cases "i < length prompts")
    case False
    with "1.prems"(1) have "results' = results" "st' = st"
      by (simp_all add: process_loop.simps)
    moreover from False "1.prems"(2,4) have "loop_invariant initial (length prompts) (analyses st)"
      by (simp add: loop_invariant_def)
    ultimately show ?thesis using False by simp
  next
    case True
    let ?aid = "a_id (initial ! i)"
    obtain result st1 where
      pp: "processPrompt e kws (prompts ! i) i ?aid st = (result, st1)"
      by (cases "processPrompt e kws (prompts ! i) i ?aid st")
    let ?st2 = "setAnalyses (map (\<lambda>a. if a_id a = a_id result then result else a)) st1"
    from True "1.prems"(1) pp have
      rec: "process_loop e prompts kws initial (i + 1) (results @ [result]) ?st2 = (results', st')"
      by (subst (asm) process_loop.simps) (simp add: Let_def)
    note P = processPrompt_props [OF pp]
    from True "1.prems"(2) have i: "i < length initial" by simp
    have aid_in: "?aid \<in> a_id ` set (drop i initial)"
      using ids_drop(1) [OF i "1.prems"(3)] by simp
    have marked: "\<forall>a\<in>set (analyses st1). item_invariant a"
      unfolding P(5) using "1.prems"(4) aid_in by (rule invariant_after_mark)
    have inv2: "loop_invariant initial (i + 1) (analyses ?st2)"
      using invariant_after_result [OF "1.prems"(4) i "1.prems"(3) P(1) P(3) P(4)]
      by (simp add: setAnalyses_def P(5) P(1))
    then have put: "\<forall>a\<in>set (analyses ?st2). item_invariant a"
      by (simp add: loop_invariant_def)
    have hist2: "history ?st2 = history st @ [analyses st1, analyses ?st2]"
      by (simp add: setAnalyses_def P(6))
    have calls2: "calls ?st2 = calls st @ [prompts ! i]" using P(8) by (simp add: setAnalyses_def)
    from "1.IH" [OF True refl pp [symmetric] refl rec "1.prems"(2,3) inv2]
    obtain ext new where
      A: "loop_invariant initial (length prompts) (analyses st')"
      and B: "history st' = history ?st2 @ ext" "\<forall>items\<in>set ext. \<forall>a\<in>set items. item_invariant a"
      and C: "results' = (results @ [result]) @ new" "length new = length prompts - (i + 1)"
             "\<forall>k<length new. a_id (new ! k) = a_id (initial ! (i + 1 + k))
                       \<and> a_prompt (new ! k) = prompts ! (i + 1 + k)
                       \<and> terminal (new ! k) \<and> item_invariant (new ! k)
                       \<and> records_outcome e kws
                            (env_generateText e (length (calls ?st2) + k) (prompts ! (i + 1 + k))) (new ! k)"
      and D: "currentSession st' = currentSession ?st2" "calls st' = calls ?st2 @ drop (i + 1) prompts"
             "ticks st' = ticks ?st2 + (length prompts - (i + 1))" "isRunning st' = isRunning ?st2"
      by blast
    have B': "\<exists>ext. history st' = history st @ ext \<and> (\<forall>items\<in>set ext. \<forall>a\<in>set items. item_invariant a)"
    proof (intro exI conjI)
      show "history st' = history st @ ([analyses st1, analyses ?st2] @ ext)"
        using B(1) hist2 by simp
      show "\<forall>items\<in>set ([analyses st1, analyses ?st2] @ ext). \<forall>a\<in>set items. item_invariant a"
        using marked put B(2) by auto
    qed
    have C': "\<exists>new. results' = results @ new \<and> length new = length prompts - i
                \<and> (\<forall>k<length new. a_id (new ! k) = a_id (initial ! (i + k))
                       \<and> a_prompt (new ! k) = prompts ! (i + k)
                       \<and> terminal (new ! k) \<and> item_invariant (new ! k)
                       \<and> records_outcome e kws
                            (env_generateText e (length (calls st) + k) (prompts ! (i + k))) (new ! k))"
    proof (intro exI conjI allI impI)
      show "results' = results @ (result # new)" using C(1) by simp
      show "length (result # new) = length prompts - i" using C(2) True by simp
    next
      fix k
      assume k: "k < length (result # new)"
      then show "a_id ((result # new) ! k) = a_id (initial ! (i + k))"
          "a_prompt ((result # new) ! k) = prompts ! (i + k)"
          "terminal ((result # new) ! k)" "item_invariant ((result # new) ! k)"
        using C(3) P(1-4) by (cases k; simp)+
      show "records_outcome e kws
              (env_generateText e (length (calls st) + k) (prompts ! (i + k))) ((result # new) ! k)"
      proof (cases k)
        case 0
        with P(11) show ?thesis by simp
      next
        case (Suc k')
        with k have "k' < length new" by simp
        with C(3) have "records_outcome e kws
              (env_generateText e (length (calls ?st2) + k') (prompts ! (i + 1 + k'))) (new ! k')"
          by blast
        with Suc calls2 show ?thesis by simp
      qed
    qed
    have D': "currentSession st' = currentSession st" "calls st' = calls st @ drop i prompts"
      "ticks st' = ticks st + (length prompts - i)" "isRunning st' = isRunning st"
    proof -
      show "currentSession st' = currentSession st" using D(1) P(7) by (simp add: setAnalyses_def)
      have "drop i prompts = prompts ! i # drop (Suc i) prompts"
        using True by (simp add: Cons_nth_drop_Suc)
      then show "calls st' = calls st @ drop i prompts"
        using D(2) calls2 by simp
      show "ticks st' = ticks st + (length prompts - i)"
        using D(3) P(9) True by (simp add: setAnalyses_def)
      show "isRunning st' = isRunning st" using D(4) P(10) by (simp add: setAnalyses_def)
    qed
    from A B' C' D' show ?thesis by blast
  qed
qed

subsection \<open>The placeholders\<close>

lemma initialAnalyses_props:
  "initialAnalyses e prompts index st = (items, st') \<Longrightarrow>
   length items = length prompts \<and> map a_prompt items = prompts
   \<and> (\<forall>a\<in>set items. a_status a = Pending \<and> a_response a = [] \<and> a_error a = None \<and> a_keywordMatches a = [])
   \<and> (\<forall>k<length items. \<exists>t. a_id (items ! k)
          = ''analysis-'' @ Number_toString t @ ''-'' @ Number_toString (int (index + k)))
   \<and> st' = st\<lparr>ticks := ticks st + 2 * length prompts\<rparr>"
proof (induction prompts arbitrary: index st items st')
  case Nil
  then show ?case by simp
next
  case (Cons prompt rest)
  let ?st2 = "st\<lparr>ticks := ticks st + 2\<rparr>"
  obtain items' st'' where r: "initialAnalyses e rest (index + 1) ?st2 = (items', st'')"
    by (cases "initialAnalyses e rest (index + 1) ?st2")
  note ih = Cons.IH [OF r]
  let ?a = "\<lparr>a_id = ''analysis-'' @ Number_toString (env_clock e (ticks st)) @ ''-'' @ Number_toString (int index),
             a_prompt = prompt, a_response = [], a_keywordMatches = [],
             a_timestamp = env_clock e (ticks st + 1), a_status = Pending, a_error = None\<rparr>"
  from Cons.prems r have items: "items = ?a # items'" and st': "st' = st''"
    by (simp_all add: Date_now_def Let_def)
  have ids: "\<exists>t. a_id (items ! k) = ''analysis-'' @ Number_toString t @ ''-'' @ Number_toString (int (index + k))"
    if "k < length items" for k
  proof (cases k)
    case 0
    with items show ?thesis by auto
  next
    case (Suc k')
    with that items have "k' < length items'" by simp
    with ih obtain t where "a_id (items' ! k')
          = ''analysis-'' @ Number_toString t @ ''-'' @ Number_toString (int (index + 1 + k'))" by blast
    with items Suc show ?thesis by auto
  qed
  from ih items st' ids show ?case by auto
qed

lemma initialAnalyses_distinct:
  assumes "initialAnalyses e prompts index st = (items, st')"
  shows "distinct (map a_id items)"
proof -
  note p = initialAnalyses_props [OF assms]
  have "a_id (items ! j) \<noteq> a_id (items ! k)" if "j < length items" "k < length items" "j \<noteq> k" for j k
  proof
    assume eq: "a_id (items ! j) = a_id (items ! k)"
    from p that obtain t t' where
      "a_id (items ! j) = ''analysis-'' @ Number_toString t @ ''-'' @ Number_toString (int (index + j))"
      "a_id (items ! k) = ''analysis-'' @ Number_toString t' @ ''-'' @ Number_toString (int (index + k))"
      by blast
    with eq have "index + j = index + k" using analysis_id_index by metis
    with that show False by simp
  qed
  then show ?thesis by (simp add: distinct_conv_nth)
qed

lemma initial_loop_invariant:
  assumes "initialAnalyses e prompts index st = (items, st')"
  shows "loop_invariant items 0 items"
  using initialAnalyses_props [OF assms]
  by (auto simp: loop_invariant_def item_invariant_def)

subsection \<open>A whole run\<close>

lemma startAnalysis_guard:
  "prompts = [] \<or> keywords = [] \<Longrightarrow> startAnalysis e prompts keywords st = st"
  by (auto simp: startAnalysis_def)

lemma startAnalysis_props:
  fixes e :: env and st :: app_state
  assumes ne: "prompts \<noteq> []" "keywords \<noteq> []"
  defines "st' \<equiv> startAnalysis e prompts keywords st"
  shows "\<exists>s. currentSession st' = Some s
           \<and> s_id s = ''session-'' @ Number_toString (env_clock e (ticks st))
           \<and> s_status s = Finished \<and> s_endTime s \<noteq> None
           \<and> length (s_results s) = length prompts
           \<and> (\<forall>k<length prompts. a_prompt (s_results s ! k) = prompts ! k
                  \<and> terminal (s_results s ! k) \<and> item_invariant (s_results s ! k)
                  \<and> records_outcome e keywords
                       (env_generateText e (length (calls st) + k) (prompts ! k)) (s_results s ! k))"
    and "length (analyses st') = length prompts"
    and "\<forall>a\<in>set (analyses st'). terminal a \<and> item_invariant a"
    and "\<exists>ext. history st' = history st @ ext \<and> (\<forall>items\<in>set ext. \<forall>a\<in>set items. item_invariant a)"
    and "calls st' = calls st @ prompts"
    and "isRunning st' = False"
    and "ticks st' = ticks st + 3 + 3 * length prompts"
proof -
  let ?st3 = "st\<lparr>isRunning := True, ticks := ticks st + 2\<rparr>"
  let ?session = "\<lparr>s_id = ''session-'' @ Number_toString (env_clock e (ticks st)), s_prompts = prompts,
                   s_keywords = keywords, s_results = [], s_startTime = env_clock e (ticks st + 1),
                   s_endTime = None, s_status = Running\<rparr>"
  let ?st4 = "?st3\<lparr>currentSession := Some ?session\<rparr>"
  obtain initial st5 where init: "initialAnalyses e prompts 0 ?st4 = (initial, st5)"
    by (cases "initialAnalyses e prompts 0 ?st4")
  note ip = initialAnalyses_props [OF init]
  let ?st6 = "setAnalyses (\<lambda>prev. initial) st5"
  obtain results st7 where
    loop: "process_loop e prompts keywords initial 0 [] ?st6 = (results, st7)"
    by (cases "process_loop e prompts keywords initial 0 [] ?st6")
  from ne init loop have
    st': "st' = st7\<lparr>ticks := ticks st7 + 1,
                 currentSession := (case currentSession st7 of None \<Rightarrow> None
                    | Some prev \<Rightarrow> Some (prev\<lparr>s_results := results,
                         s_endTime := Some (env_clock e (ticks st7)), s_status := Finished\<rparr>)),
                 isRunning := False\<rparr>"
    by (simp add: st'_def startAnalysis_def Date_now_def Let_def)
  have len: "length initial = length prompts" using ip by simp
  have inv: "loop_invariant initial 0 (analyses ?st6)"
    using initial_loop_invariant [OF init] by (simp add: setAnalyses_def)
  from process_loop_props [OF loop len initialAnalyses_distinct [OF init] inv]
  obtain ext new where
    A: "loop_invariant initial (length prompts) (analyses st7)"
    and B: "history st7 = history ?st6 @ ext" "\<forall>items\<in>set ext. \<forall>a\<in>set items. item_invariant a"
    and C: "results = [] @ new" "length new = length prompts - 0"
           "\<forall>k<length new. a_id (new ! k) = a_id (initial ! (0 + k))
                       \<and> a_prompt (new ! k) = prompts ! (0 + k)
                       \<and> terminal (new ! k) \<and> item_invariant (new ! k)
                       \<and> records_outcome e keywords
                            (env_generateText e (length (calls ?st6) + k) (prompts ! (0 + k))) (new ! k)"
    and D: "currentSession st7 = currentSession ?st6" "calls st7 = calls ?st6 @ drop 0 prompts"
           "ticks st7 = ticks ?st6 + (length prompts - 0)"
    by blast
  have st6: "currentSession ?st6 = Some ?session" "calls ?st6 = calls st"
    "history ?st6 = history st @ [initial]" "ticks ?st6 = ticks st + 2 + 2 * length prompts"
    using ip by (simp_all add: setAnalyses_def)
  show "\<exists>s. currentSession st' = Some s
           \<and> s_id s = ''session-'' @ Number_toString (env_clock e (ticks st))
           \<and> s_status s = Finished \<and> s_endTime s \<noteq> None
           \<and> length (s_results s) = length prompts
           \<and> (\<forall>k<length prompts. a_prompt (s_results s ! k) = prompts ! k
                  \<and> terminal (s_results s ! k) \<and> item_invariant (s_results s ! k)
                  \<and> records_outcome e keywords
                       (env_generateText e (length (calls st) + k) (prompts ! k)) (s_results s ! k))"
    using st' D(1) st6 C by simp
  from A have ids: "map a_id (analyses st7) = map a_id initial"
    and all: "\<forall>a\<in>set (analyses st7). item_invariant a \<and> terminal a"
    by (auto simp: loop_invariant_def len [symmetric])
  from ids have "length (analyses st7) = length initial" by (metis length_map)
  with len st' show "length (analyses st') = length prompts" by simp
  from all st' show "\<forall>a\<in>set (analyses st'). terminal a \<and> item_invariant a" by simp
  have "\<forall>a\<in>set initial. item_invariant a"
    using ip by (simp add: item_invariant_def)
  with B st6 st' show "\<exists>ext. history st' = history st @ ext
      \<and> (\<forall>items\<in>set ext. \<forall>a\<in>set items. item_invariant a)"
    by (intro exI [of _ "initial # ext"]) simp
  from D(2) st6 st' show "calls st' = calls st @ prompts" by simp
  from st' show "isRunning st' = False" by simp
  from D(3) st6 st' show "ticks st' = ticks st + 3 + 3 * length prompts" by simp
qed

lemma x_star:
  "RegExp_gi ''x*'' = Inr (compile [(Lit CHR ''x'', Star)])"
  "compile [(Lit CHR ''x'', Star)] ''AI in the cloud'' 0 = Some 0"
  by (simp_all add: RegExp_gi_def is_quantifier_def atom_of_def syntax_char_def quantifier_of_def
      compile_def Canonicalize_def char_of_def bit_Suc_0_iff)

lemma x_star_scan:
  "findKeywordMatches (env_RegExp example_env) (env_array_limit example_env) ''AI in the cloud'' [''x*'']
     = Inl range_error"
proof -
  have "keyword_callback RegExp_gi 4294967295 ''AI in the cloud'' ''x*'' = Inl range_error"
    using x_star by (rule keyword_callback_stuck)
  then show ?thesis by (simp add: findKeywordMatches_def example_env_def)
qed

text \<open>
  C2, as the code has it. In every value that \<open>analyses\<close> takes during a run, and in
  the results of the finished session, an item that is pending or processing has an
  empty response, no matches and no error; an item in error has its error set, an empty
  response and no matches; a completed item has no error (its response is the text of
  the provider, which may be empty).
\<close>

theorem scheduler_keeps_item_invariant:
  "(\<forall>items\<in>set (drop (length (history st)) (history (startAnalysis e prompts keywords st))).
       \<forall>a\<in>set items. item_invariant a)
   \<and> (prompts \<noteq> [] \<and> keywords \<noteq> []
        \<longrightarrow> (\<exists>s. currentSession (startAnalysis e prompts keywords st) = Some s
                \<and> (\<forall>a\<in>set (s_results s). terminal a \<and> item_invariant a)))"
proof (cases "prompts = [] \<or> keywords = []")
  case True
  then have "startAnalysis e prompts keywords st = st" by (rule startAnalysis_guard)
  with True show ?thesis by auto
next
  case False
  then have ne: "prompts \<noteq> []" "keywords \<noteq> []" by simp_all
  from startAnalysis_props(4) [OF ne, where e = e and st = st]
  have h: "\<forall>items\<in>set (drop (length (history st)) (history (startAnalysis e prompts keywords st))).
       \<forall>a\<in>set items. item_invariant a"
    by auto
  from startAnalysis_props(1) [OF ne, where e = e and st = st] obtain s where
    s: "currentSession (startAnalysis e prompts keywords st) = Some s"
    "length (s_results s) = length prompts"
    "\<forall>k<length prompts. terminal (s_results s ! k) \<and> item_invariant (s_results s ! k)"
    by blast
  then have "\<forall>a\<in>set (s_results s). terminal a \<and> item_invariant a"
    by (auto simp: in_set_conv_nth)
  with h s(1) show ?thesis by blast
qed

lemmas run_eval = startAnalysis_def process_loop.simps processPrompt_def errorAnalysis_def
  setAnalyses_def Date_now_def generateText_def resetAnalysis_def Number_toString_def
  digits.simps digit_char_def example_env_def frozen_clock_env_def empty_text_env_def
  initial_app_def unknown_error_def Let_def

theorem scheduler_keeps_item_invariant_witness:
  "map (map a_status) (history (startAnalysis example_env [''p'', ''fail''] [''ai'', ''cloud''] initial_app))
     = [[Pending, Pending], [Processing, Pending], [Completed, Pending],
        [Completed, Processing], [Completed, Error]]
   \<and> [''p''] \<noteq> [] \<and> [''x*''] \<noteq> []
   \<and> (\<exists>s. currentSession (startAnalysis example_env [''p''] [''x*''] initial_app) = Some s
        \<and> length (s_results s) = 1
        \<and> a_status (s_results s ! 0) = Error
        \<and> a_error (s_results s ! 0) = Some ''Invalid array length''
        \<and> item_invariant (s_results s ! 0))"
proof -
  have h: "map (map a_status) (history (startAnalysis example_env [''p'', ''fail''] [''ai'', ''cloud''] initial_app))
     = [[Pending, Pending], [Processing, Pending], [Completed, Pending],
        [Completed, Processing], [Completed, Error]]"
    by (simp add: run_eval matcher_eval)
  have ne: "[''p''] \<noteq> []" "[''x*''] \<noteq> []" by simp_all
  from scheduler_keeps_item_invariant [of initial_app example_env "[''p'']" "[''x*'']"]
  obtain s where s: "currentSession (startAnalysis example_env [''p''] [''x*''] initial_app) = Some s"
    and inv: "\<forall>a\<in>set (s_results s). terminal a \<and> item_invariant a"
    by auto
  from startAnalysis_props(1) [OF ne, where e = example_env and st = initial_app] s
  have l: "length (s_results s) = 1"
    and r: "records_outcome example_env [''x*'']
              (env_generateText example_env (length (calls initial_app) + 0) ([''p''] ! 0)) (s_results s ! 0)"
    by auto
  have "env_generateText example_env (length (calls initial_app) + 0) ([''p''] ! 0) = Resolved ''AI in the cloud''"
    by (simp add: example_env_def)
  with r x_star_scan have e: "a_status (s_results s ! 0) = Error"
    "a_error (s_results s ! 0) = Some ''Invalid array length''"
    by (simp_all add: records_outcome_def range_error_def)
  from inv l have "item_invariant (s_results s ! 0)" by (cases "s_results s") auto
  with h s l e show ?thesis by simp
qed

theorem completed_item_with_empty_response_counterexample:
  "analyses (startAnalysis empty_text_env [''p''] [''k''] initial_app)
     = [\<lparr>a_id = ''analysis-1002-0'', a_prompt = ''p'', a_response = [], a_keywordMatches = [],
          a_timestamp = 1004, a_status = Completed, a_error = None\<rparr>]
   \<and> \<not> specified_item_invariant
         \<lparr>a_id = ''analysis-1002-0'', a_prompt = ''p'', a_response = [], a_keywordMatches = [],
          a_timestamp = 1004, a_status = Completed, a_error = None\<rparr>"
  by (simp add: run_eval matcher_eval specified_item_invariant_def)




lemma resetAnalysis_fields:
  "ticks (resetAnalysis st) = ticks st" "calls (resetAnalysis st) = calls st"
  "analyses (resetAnalysis st) = []" "currentSession (resetAnalysis st) = None"
  by (simp_all add: resetAnalysis_def setAnalyses_def)

text \<open>
  C7, as the code has it. The id of a session is the text \<open>session-\<close> followed by the
  reading of the clock at the start. When a run, a reset and a second run follow one
  another (each run with prompts and keywords), both runs produce a session; the two ids
  differ exactly when the clock readings at the two starts differ (the first run reads the
  clock three times, and three times for each of its prompts), as they do when the clock
  is strictly increasing; and the item list of the second run is as long as the
  new list of prompts, whatever the first run was.
\<close>

theorem restart_gives_session_of_its_own:
  "prompts1 \<noteq> [] \<Longrightarrow> keywords1 \<noteq> [] \<Longrightarrow> prompts2 \<noteq> [] \<Longrightarrow> keywords2 \<noteq> [] \<Longrightarrow>
   st1 = startAnalysis e prompts1 keywords1 st \<Longrightarrow>
   st2 = startAnalysis e prompts2 keywords2 (resetAnalysis st1) \<Longrightarrow>
   \<exists>s1 s2. currentSession st1 = Some s1 \<and> currentSession st2 = Some s2
      \<and> s_id s1 = ''session-'' @ Number_toString (env_clock e (ticks st))
      \<and> s_id s2 = ''session-'' @ Number_toString (env_clock e (ticks (resetAnalysis st1)))
      \<and> ticks (resetAnalysis st1) = ticks st + 3 + 3 * length prompts1
      \<and> (s_id s1 \<noteq> s_id s2) = (env_clock e (ticks st) \<noteq> env_clock e (ticks (resetAnalysis st1)))
      \<and> ((\<forall>j k. j < k \<longrightarrow> env_clock e j < env_clock e k) \<longrightarrow> s_id s1 \<noteq> s_id s2)
      \<and> length (analyses st2) = length prompts2"
proof -
  assume ne1: "prompts1 \<noteq> []" "keywords1 \<noteq> []" and ne2: "prompts2 \<noteq> []" "keywords2 \<noteq> []"
    and st1: "st1 = startAnalysis e prompts1 keywords1 st"
    and st2: "st2 = startAnalysis e prompts2 keywords2 (resetAnalysis st1)"
  note S1 = startAnalysis_props [OF ne1, where e = e and st = st, folded st1]
  note S2 = startAnalysis_props [OF ne2, where e = e and st = "resetAnalysis st1", folded st2]
  from S1(1) obtain s1 where
    s1: "currentSession st1 = Some s1" "s_id s1 = ''session-'' @ Number_toString (env_clock e (ticks st))"
    by blast
  from S2(1) obtain s2 where
    s2: "currentSession st2 = Some s2"
      "s_id s2 = ''session-'' @ Number_toString (env_clock e (ticks (resetAnalysis st1)))"
    by blast
  have iff: "(s_id s1 \<noteq> s_id s2) = (env_clock e (ticks st) \<noteq> env_clock e (ticks (resetAnalysis st1)))"
    unfolding s1(2) s2(2) using Number_toString_inj by auto
  have tk: "ticks (resetAnalysis st1) = ticks st + 3 + 3 * length prompts1"
    using S1(7) by (simp add: resetAnalysis_fields)
  then have "ticks st < ticks (resetAnalysis st1)" by simp
  then have "(\<forall>j k. j < k \<longrightarrow> env_clock e j < env_clock e k) \<longrightarrow> s_id s1 \<noteq> s_id s2"
    unfolding iff by (metis less_irrefl)
  with s1 s2 iff tk S2(2) show ?thesis by blast
qed

theorem restart_gives_session_of_its_own_witness:
  "[''p'', ''fail'', ''q''] \<noteq> [] \<and> [''q''] \<noteq> [] \<and> [''ai'', ''cloud''] \<noteq> []
   \<and> env_clock example_env (ticks initial_app) = 1000
   \<and> env_clock example_env
        (ticks (resetAnalysis (startAnalysis example_env [''p'', ''fail'', ''q''] [''ai'', ''cloud''] initial_app)))
       = 1012
   \<and> (\<exists>s1 s2.
        currentSession (startAnalysis example_env [''p'', ''fail'', ''q''] [''ai'', ''cloud''] initial_app) = Some s1
      \<and> currentSession (startAnalysis example_env [''q''] [''ai'', ''cloud'']
           (resetAnalysis (startAnalysis example_env [''p'', ''fail'', ''q''] [''ai'', ''cloud''] initial_app)))
          = Some s2
      \<and> s_id s1 = ''session-1000'' \<and> s_id s2 = ''session-1012'')
   \<and> length (analyses (startAnalysis example_env [''q''] [''ai'', ''cloud'']
           (resetAnalysis (startAnalysis example_env [''p'', ''fail'', ''q''] [''ai'', ''cloud''] initial_app)))) = 1"
proof -
  let ?st1 = "startAnalysis example_env [''p'', ''fail'', ''q''] [''ai'', ''cloud''] initial_app"
  let ?st2 = "startAnalysis example_env [''q''] [''ai'', ''cloud''] (resetAnalysis ?st1)"
  have ne: "[''p'', ''fail'', ''q''] \<noteq> []" "[''ai'', ''cloud''] \<noteq> []" "[''q''] \<noteq> []" by simp_all
  from startAnalysis_props(7) [OF ne(1,2), where e = example_env and st = initial_app]
  have "ticks ?st1 = 12" by (simp add: initial_app_def)
  then have c: "env_clock example_env (ticks initial_app) = 1000"
    "env_clock example_env (ticks (resetAnalysis ?st1)) = 1012"
    by (simp_all add: resetAnalysis_fields example_env_def initial_app_def)
  from restart_gives_session_of_its_own [OF ne(1,2) ne(3,2) refl refl, of example_env initial_app]
  obtain s1 s2 where s: "currentSession ?st1 = Some s1" "currentSession ?st2 = Some s2"
    "s_id s1 = ''session-'' @ Number_toString (env_clock example_env (ticks initial_app))"
    "s_id s2 = ''session-'' @ Number_toString (env_clock example_env (ticks (resetAnalysis ?st1)))"
    "length (analyses ?st2) = length [''q'']"
    by blast
  from s(3,4) have ids: "s_id s1 = ''session-1000''" "s_id s2 = ''session-1012''"
    unfolding c by (simp_all add: Number_toString_def digits.simps digit_char_def)
  from ne c s(1,2,5) ids show ?thesis
    by (intro conjI exI [of _ s1] exI [of _ s2]) simp_all
qed

theorem same_millisecond_same_id_counterexample:
  "map_option s_id (currentSession (startAnalysis frozen_clock_env [''p''] [''ai'', ''cloud''] initial_app))
     = Some ''session-5''
   \<and> map_option s_id (currentSession (startAnalysis frozen_clock_env [''q''] [''ai'', ''cloud'']
        (resetAnalysis (startAnalysis frozen_clock_env [''p''] [''ai'', ''cloud''] initial_app))))
     = Some ''session-5''"
proof -
  have ne: "[''p''] \<noteq> []" "[''ai'', ''cloud''] \<noteq> []" "[''q''] \<noteq> []" by simp_all
  have five: "''session-'' @ Number_toString (env_clock frozen_clock_env k) = ''session-5''" for k
    by (simp add: frozen_clock_env_def Number_toString_def digits.simps digit_char_def)
  from startAnalysis_props(1) [OF ne(1,2), where e = frozen_clock_env and st = initial_app]
  have 1: "map_option s_id (currentSession (startAnalysis frozen_clock_env [''p''] [''ai'', ''cloud''] initial_app))
     = Some ''session-5''"
    unfolding five by auto
  from startAnalysis_props(1) [OF ne(3,2), where e = frozen_clock_env
      and st = "resetAnalysis (startAnalysis frozen_clock_env [''p''] [''ai'', ''cloud''] initial_app)"]
  have 2: "map_option s_id (currentSession (startAnalysis frozen_clock_env [''q''] [''ai'', ''cloud'']
        (resetAnalysis (startAnalysis frozen_clock_env [''p''] [''ai'', ''cloud''] initial_app))))
     = Some ''session-5''"
    unfolding five by auto
  from 1 2 show ?thesis by simp
qed

section \<open>Properties of the batch component\<close>

lemmas csv_eval = parseCSV_def parse_line_def trim_def whitespace_def remove_quotes_def
  oversized_csv_def Let_def

lemma oversized_csv_rows:
  "parseCSV oversized_csv = Inr (replicate 51 \<lparr>r_prompt = ''p'', r_keywords = [''k'']\<rparr>)"
  by (simp add: csv_eval eval_nat_numeral)


text \<open>
  C8. When the parser yields more than 50 rows, the upload handler stores no row: the row
  list is empty, the error message is shown, and neither the batch session, the clock nor
  the provider has been touched. Starting the batch on that state then does nothing: no
  session is created, no item is built, no prompt is sent, and the completion callback is
  not called.
\<close>

theorem oversized_batch_is_rejected:
  "parseCSV csvText = Inr rows \<Longrightarrow> 50 < length rows \<Longrightarrow>
   batchData (handleFileUpload (Some csvText) st) = []
   \<and> error (handleFileUpload (Some csvText) st) = Some too_many_rows
   \<and> batchSession (handleFileUpload (Some csvText) st) = batchSession st
   \<and> calls (handleFileUpload (Some csvText) st) = calls st
   \<and> ticks (handleFileUpload (Some csvText) st) = ticks st
   \<and> processBatch e (handleFileUpload (Some csvText) st) = (handleFileUpload (Some csvText) st, None)"
  by (auto simp: handleFileUpload_def checked_rows_def processBatch_def)

theorem oversized_batch_is_rejected_witness:
  "parseCSV oversized_csv = Inr (replicate 51 \<lparr>r_prompt = ''p'', r_keywords = [''k'']\<rparr>)
   \<and> 50 < length (replicate 51 \<lparr>r_prompt = ''p'', r_keywords = [''k'']\<rparr>)
   \<and> handleFileUpload (Some oversized_csv) initial_batch
       = \<lparr>ticks = 0, calls = [], batchData = [], batchSession = None, isProcessing = False,
          error = Some ''Maximum 50 rows allowed per batch''\<rparr>
   \<and> processBatch example_env (handleFileUpload (Some oversized_csv) initial_batch)
       = (handleFileUpload (Some oversized_csv) initial_batch, None)"
proof -
  have len: "50 < length (replicate 51 \<lparr>r_prompt = ''p'', r_keywords = [''k'']\<rparr>)" by simp
  note t = oversized_batch_is_rejected [OF oversized_csv_rows len, of initial_batch example_env]
  have "handleFileUpload (Some oversized_csv) initial_batch
       = \<lparr>ticks = 0, calls = [], batchData = [], batchSession = None, isProcessing = False,
          error = Some ''Maximum 50 rows allowed per batch''\<rparr>"
    by (simp add: handleFileUpload_def checked_rows_def oversized_csv_rows initial_batch_def
        too_many_rows_def)
  with t oversized_csv_rows len show ?thesis by (simp add: too_many_rows_def)
qed

end
